theory Spec2Isabelle
  imports Main
begin

section \<open>Durations, errors and the world the iterators run in\<close>

text \<open>
  \<open>time.Duration\<close> is a signed 64-bit count of nanoseconds. The functions modelled here
  never add or multiply durations: they compare them with zero, pass them on, and draw a
  random number below one. They are modelled as integers.
\<close>

type_synonym duration = int

text \<open>
  Errors. \<open>ErrUnrecoverable\<close> is the constant \<open>unrecoverableErr("unrecoverable")\<close>;
  \<open>ErrorString\<close> is \<open>errors.New\<close>; \<open>WrapError\<close> is an error with one wrapped error
  (\<open>fmt.Errorf\<close> with one \<open>%w\<close>); \<open>JoinError\<close> wraps several (\<open>errors.Join\<close>);
  \<open>Canceled\<close> and \<open>DeadlineExceeded\<close> are the reasons of a context. A nil error is
  \<open>None\<close> of \<open>error option\<close>.
\<close>

datatype error =
    ErrUnrecoverable
  | ErrorString string
  | WrapError string error
  | JoinError "error list"
  | Canceled
  | DeadlineExceeded

text \<open>\<open>errors.Is\<close> on a non-nil error: the error itself, or one in its chain, equals the target.\<close>

fun error_chain_has :: "error \<Rightarrow> error \<Rightarrow> bool" where
  "error_chain_has (WrapError msg e) target =
     (if WrapError msg e = target then True else error_chain_has e target)"
| "error_chain_has (JoinError es) target =
     (if JoinError es = target then True else list_ex (\<lambda>e. error_chain_has e target) es)"
| "error_chain_has e target = (e = target)"

fun errors_Is :: "error option \<Rightarrow> error \<Rightarrow> bool" where
  "errors_Is None target = False"
| "errors_Is (Some e) target = error_chain_has e target"

text \<open>
  The world outside the iterators: the waits that \<open>Backoff\<close> has completed (oldest first),
  the global random source of \<open>math/rand/v2\<close> as a stream of raw numbers with the count of
  those already drawn, the runtime's choice in a \<open>select\<close> whose two cases are both ready
  (indexed by the number of completed waits), and the state of the caller's closures.
\<close>

record 's world =
  slept :: "duration list"
  rand_src :: "nat \<Rightarrow> nat"
  rand_used :: nat
  timer_first :: "nat \<Rightarrow> bool"
  user :: 's

text \<open>
  \<open>rand.N(n)\<close> panics when \<open>n \<le> 0\<close> and otherwise returns a number of \<open>[0, n)\<close>: whatever the
  source delivers, reduced below \<open>n\<close>.
\<close>

definition rand_N :: "duration \<Rightarrow> 's world \<Rightarrow> string + (duration \<times> 's world)" where
  "rand_N n g =
     (if n \<le> 0 then Inl ''invalid argument to N''
      else Inr (int (rand_src g (rand_used g)) mod n, g\<lparr>rand_used := Suc (rand_used g)\<rparr>))"

section \<open>Push iterators\<close>

text \<open>
  An \<open>iter.Seq[time.Duration]\<close> is a function that takes \<open>yield\<close> and calls it once per
  element until it returns false. The loop body of a \<open>range\<close> over a sequence is such a
  \<open>yield\<close>: it returns true to go on and false when the body returns or breaks. A body
  reads and writes the local variables of the function it stands in (\<open>'l\<close>) and the world;
  it may panic (\<open>Inl\<close>). Running a sequence returns the locals and the world at the end, a
  panic, or nothing when the loop never ends (\<open>None\<close>).
\<close>

type_synonym ('l, 's) yield =
  "duration \<Rightarrow> 'l \<Rightarrow> 's world \<Rightarrow> string + (bool \<times> 'l \<times> 's world)"

type_synonym ('l, 's) seq =
  "('l, 's) yield \<Rightarrow> 'l \<Rightarrow> 's world \<Rightarrow> (string + ('l \<times> 's world)) option"

text \<open>\<open>Const\<close>: \<open>for yield(dur) {}\<close>.\<close>

partial_function (option) Const :: "duration \<Rightarrow> ('l, 's) seq" where
  "Const dur yield l g =
     (case yield dur l g of
        Inl p \<Rightarrow> Some (Inl p)
      | Inr (c, l', g') \<Rightarrow> if c then Const dur yield l' g' else Some (Inr (l', g')))"

text \<open>
  A finite sequence: \<open>slices.Values\<close> of the standard library,
  \<open>for _, v := range s { if !yield(v) { return } }\<close>.
\<close>

fun Values :: "duration list \<Rightarrow> ('l, 's) seq" where
  "Values [] yield l g = Some (Inr (l, g))"
| "Values (v # vs) yield l g =
     (case yield v l g of
        Inl p \<Rightarrow> Some (Inl p)
      | Inr (c, l', g') \<Rightarrow> if c then Values vs yield l' g' else Some (Inr (l', g')))"

text \<open>The result of an inner loop, without the locals of the function that ran it.\<close>

definition drop_local :: "(string + (('a \<times> 'l) \<times> 'g)) option \<Rightarrow> (string + ('l \<times> 'g)) option" where
  "drop_local r = map_option (map_sum id (\<lambda>((a, l), g). (l, g))) r"

text \<open>\<open>Jitter\<close>: the body of its loop is \<open>if !yield(rand.N(nw)) { return }\<close>.\<close>

definition Jitter_body :: "('l, 's) yield \<Rightarrow> ('l, 's) yield" where
  "Jitter_body yield nw l g =
     (case rand_N nw g of
        Inl p \<Rightarrow> Inl p
      | Inr (r, g') \<Rightarrow> yield r l g')"

definition Jitter :: "('l, 's) seq \<Rightarrow> ('l, 's) seq" where
  "Jitter seq yield l g = seq (Jitter_body yield) l g"

text \<open>
  \<open>Limit\<close>: the body of its loop tests \<open>n <= 0\<close> first, then decrements \<open>n\<close> and yields.
  The captured \<open>n\<close> is the local of the body; a run of the iterator starts with the \<open>n\<close>
  that \<open>Limit\<close> was given (the first range over the iterator it returns).
\<close>

fun Limit_body :: "('l, 's) yield \<Rightarrow> (int \<times> 'l, 's) yield" where
  "Limit_body yield nw (n, l) g =
     (if n \<le> 0 then Inr (False, (n, l), g)
      else (case yield nw l g of
              Inl p \<Rightarrow> Inl p
            | Inr (c, l', g') \<Rightarrow> Inr (c, (n - 1, l'), g')))"

definition Limit :: "int \<Rightarrow> (int \<times> 'l, 's) seq \<Rightarrow> ('l, 's) seq" where
  "Limit n seq yield l g = drop_local (seq (Limit_body yield) (n, l) g)"

section \<open>Backoff\<close>

definition SentinelDuration :: duration where
  "SentinelDuration = - 1"

text \<open>
  \<open>appendSentiel\<close>: the loop over \<open>seq\<close> passes every element on and returns from the
  function when \<open>yield\<close> returns false; only when the loop ends by itself is
  \<open>SentinelDuration\<close> yielded. The flag records that the body returned.
\<close>

fun appendSentiel_body :: "('l, 's) yield \<Rightarrow> (bool \<times> 'l, 's) yield" where
  "appendSentiel_body yield nw (returned, l) g =
     (case yield nw l g of
        Inl p \<Rightarrow> Inl p
      | Inr (c, l', g') \<Rightarrow>
          if c then Inr (True, (returned, l'), g') else Inr (False, (True, l'), g'))"

definition appendSentiel_end ::
  "('l, 's) yield \<Rightarrow> (string + ((bool \<times> 'l) \<times> 's world)) option \<Rightarrow> (string + ('l \<times> 's world)) option" where
  "appendSentiel_end yield r =
     (case r of
        None \<Rightarrow> None
      | Some (Inl p) \<Rightarrow> Some (Inl p)
      | Some (Inr ((returned, l), g)) \<Rightarrow>
          if returned then Some (Inr (l, g))
          else (case yield SentinelDuration l g of
                  Inl p \<Rightarrow> Some (Inl p)
                | Inr (c, l', g') \<Rightarrow> Some (Inr (l', g'))))"

definition appendSentiel :: "(bool \<times> 'l, 's) seq \<Rightarrow> ('l, 's) seq" where
  "appendSentiel seq yield l g =
     appendSentiel_end yield (seq (appendSentiel_body yield) (False, l) g)"

text \<open>
  A context, as far as one call sees it: \<open>Background\<close> is never done during the call;
  \<open>Cancelled e\<close> was cancelled before the call, its \<open>Done\<close> channel is closed and \<open>Err\<close>
  returns \<open>e\<close>.
\<close>

datatype "context" = Background | Cancelled error

fun ctx_Done :: "context \<Rightarrow> bool" where
  "ctx_Done Background = False"
| "ctx_Done (Cancelled e) = True"

fun ctx_Err :: "context \<Rightarrow> error option" where
  "ctx_Err Background = None"
| "ctx_Err (Cancelled e) = Some e"

text \<open>
  The \<open>select\<close> of \<open>Backoff\<close> on \<open>ctx.Done()\<close> and \<open>time.After(nw)\<close>, entered with
  \<open>0 \<le> nw\<close>. With a live context the timer fires and the wait is completed. With a closed
  \<open>Done\<close> channel, \<open>Done\<close> is ready when the \<open>select\<close> polls, and the timer of
  \<open>time.After(nw)\<close>, started before the poll, may have expired as well (at once for
  \<open>nw = 0\<close>, and for a short positive \<open>nw\<close> too); the runtime then chooses among the ready
  cases. Whether the timer is the case taken is \<open>timer_first\<close> of the world, for every
  \<open>nw\<close>: a timer that is taken completes the wait.
\<close>

datatype select_case = CtxDone | TimerFired

definition select_wait :: "context \<Rightarrow> duration \<Rightarrow> 's world \<Rightarrow> select_case \<times> 's world" where
  "select_wait ctx nw g =
     (if ctx_Done ctx then
        (if timer_first g (length (slept g)) then (TimerFired, g\<lparr>slept := slept g @ [nw]\<rparr>)
         else (CtxDone, g))
      else (TimerFired, g\<lparr>slept := slept g @ [nw]\<rparr>))"

text \<open>
  The loop body of a \<open>range\<close> over \<open>Backoff\<close> receives the index and the pointer \<open>&nw\<close>:
  it is given the duration and returns the one it leaves behind the pointer.
\<close>

type_synonym ('l, 's) yield2 =
  "int \<Rightarrow> duration \<Rightarrow> 'l \<Rightarrow> 's world \<Rightarrow> string + (bool \<times> duration \<times> 'l \<times> 's world)"

type_synonym ('l, 's) seq2 =
  "('l, 's) yield2 \<Rightarrow> 'l \<Rightarrow> 's world \<Rightarrow> (string + ('l \<times> 's world)) option"

text \<open>
  \<open>Backoff\<close>: the body of its loop over \<open>appendSentiel(pauseSeq)\<close>, with the local \<open>i\<close>.
  Every \<open>return\<close> of the body ends the loop; only a timer that fired goes on, with \<open>i++\<close>.
  The index is a Go \<open>int\<close>, modelled as an integer: it is only counted up from 0 and
  handed to the loop body.
\<close>

fun Backoff_body :: "context \<Rightarrow> ('l, 's) yield2 \<Rightarrow> (int \<times> 'l, 's) yield" where
  "Backoff_body ctx yield nw (i, l) g =
     (case yield i nw l g of
        Inl p \<Rightarrow> Inl p
      | Inr (c, nw', l', g') \<Rightarrow>
          if \<not> c then Inr (False, (i, l'), g')
          else if nw' < 0 then Inr (False, (i, l'), g')
          else (case select_wait ctx nw' g' of
                  (CtxDone, g'') \<Rightarrow> Inr (False, (i, l'), g'')
                | (TimerFired, g'') \<Rightarrow> Inr (True, (i + 1, l'), g'')))"

definition Backoff :: "context \<Rightarrow> (bool \<times> int \<times> 'l, 's) seq \<Rightarrow> ('l, 's) seq2" where
  "Backoff ctx pauseSeq yield l g =
     drop_local (appendSentiel pauseSeq (Backoff_body ctx yield) (0, l) g)"

section \<open>The retry drivers\<close>

text \<open>
  The operation \<open>f(i, nw)\<close> of \<open>Retry0\<close>: given the index, the duration behind the pointer
  and the state of its closure, it returns the duration it leaves behind the pointer, its
  error and the new state. The operations of \<open>Retry1\<close>, \<open>Retry2\<close> and \<open>Retry3\<close> return
  their values too.
\<close>

type_synonym 's op0 = "int \<Rightarrow> duration \<Rightarrow> 's \<Rightarrow> (duration \<times> error option) \<times> 's"

type_synonym ('a, 's) op1 = "int \<Rightarrow> duration \<Rightarrow> 's \<Rightarrow> (duration \<times> 'a \<times> error option) \<times> 's"

text \<open>
  \<open>Retry0\<close>: the locals of the loop body are the value returned from inside the loop, if
  any, and \<open>err\<close>.
\<close>

fun Retry0_body :: "'s op0 \<Rightarrow> (error option option \<times> error option, 's) yield2" where
  "Retry0_body f i nw (ret, err) g =
     (case f i nw (user g) of
        ((nw', err'), u') \<Rightarrow>
          if errors_Is err' ErrUnrecoverable then Inr (False, nw', (Some err', err'), g\<lparr>user := u'\<rparr>)
          else if err' \<noteq> None then Inr (True, nw', (ret, err'), g\<lparr>user := u'\<rparr>)
          else Inr (False, nw', (Some None, err'), g\<lparr>user := u'\<rparr>))"

definition Retry0_end ::
  "(string + ((error option option \<times> error option) \<times> 's world)) option
     \<Rightarrow> (string + (error option \<times> 's world)) option" where
  "Retry0_end r =
     map_option (map_sum id (\<lambda>((ret, err), g). (case ret of Some e \<Rightarrow> e | None \<Rightarrow> err, g))) r"

definition Retry0 ::
  "context \<Rightarrow> (bool \<times> int \<times> error option option \<times> error option, 's) seq \<Rightarrow> 's op0
     \<Rightarrow> 's world \<Rightarrow> (string + (error option \<times> 's world)) option" where
  "Retry0 ctx pauseSeq f g = Retry0_end (Backoff ctx pauseSeq (Retry0_body f) (None, None) g)"

text \<open>
  \<open>Retry1\<close>: the locals are the returned pair, if any, \<open>t\<close> and \<open>err\<close>; \<open>t0\<close> is the zero
  value of \<open>T\<close>. \<open>Retry2\<close> and \<open>Retry3\<close> are \<open>Retry1\<close> with two and three values.
\<close>

fun Retry1_body ::
  "('a, 's) op1 \<Rightarrow> (('a \<times> error option) option \<times> 'a \<times> error option, 's) yield2" where
  "Retry1_body f i nw (ret, t, err) g =
     (case f i nw (user g) of
        ((nw', t', err'), u') \<Rightarrow>
          if errors_Is err' ErrUnrecoverable
          then Inr (False, nw', (Some (t', err'), t', err'), g\<lparr>user := u'\<rparr>)
          else if err' \<noteq> None then Inr (True, nw', (ret, t', err'), g\<lparr>user := u'\<rparr>)
          else Inr (False, nw', (Some (t', None), t', err'), g\<lparr>user := u'\<rparr>))"

definition Retry1_end ::
  "(string + ((('a \<times> error option) option \<times> 'a \<times> error option) \<times> 's world)) option
     \<Rightarrow> (string + (('a \<times> error option) \<times> 's world)) option" where
  "Retry1_end r =
     map_option (map_sum id (\<lambda>((ret, t, err), g). (case ret of Some v \<Rightarrow> v | None \<Rightarrow> (t, err), g))) r"

definition Retry1 ::
  "context \<Rightarrow> (bool \<times> int \<times> ('a \<times> error option) option \<times> 'a \<times> error option, 's) seq
     \<Rightarrow> ('a, 's) op1 \<Rightarrow> 'a \<Rightarrow> 's world \<Rightarrow> (string + (('a \<times> error option) \<times> 's world)) option" where
  "Retry1 ctx pauseSeq f t0 g =
     Retry1_end (Backoff ctx pauseSeq (Retry1_body f) (None, t0, None) g)"

type_synonym ('a, 'b, 's) op2 =
  "int \<Rightarrow> duration \<Rightarrow> 's \<Rightarrow> (duration \<times> 'a \<times> 'b \<times> error option) \<times> 's"

fun Retry2_body ::
  "('a, 'b, 's) op2
     \<Rightarrow> (('a \<times> 'b \<times> error option) option \<times> 'a \<times> 'b \<times> error option, 's) yield2" where
  "Retry2_body f i nw (ret, t1, t2, err) g =
     (case f i nw (user g) of
        ((nw', t1', t2', err'), u') \<Rightarrow>
          if errors_Is err' ErrUnrecoverable
          then Inr (False, nw', (Some (t1', t2', err'), t1', t2', err'), g\<lparr>user := u'\<rparr>)
          else if err' \<noteq> None then Inr (True, nw', (ret, t1', t2', err'), g\<lparr>user := u'\<rparr>)
          else Inr (False, nw', (Some (t1', t2', None), t1', t2', err'), g\<lparr>user := u'\<rparr>))"

definition Retry2_end ::
  "(string + ((('a \<times> 'b \<times> error option) option \<times> 'a \<times> 'b \<times> error option) \<times> 's world)) option
     \<Rightarrow> (string + (('a \<times> 'b \<times> error option) \<times> 's world)) option" where
  "Retry2_end r =
     map_option (map_sum id
       (\<lambda>((ret, t1, t2, err), g). (case ret of Some v \<Rightarrow> v | None \<Rightarrow> (t1, t2, err), g))) r"

definition Retry2 ::
  "context
     \<Rightarrow> (bool \<times> int \<times> ('a \<times> 'b \<times> error option) option \<times> 'a \<times> 'b \<times> error option, 's) seq
     \<Rightarrow> ('a, 'b, 's) op2 \<Rightarrow> 'a \<Rightarrow> 'b \<Rightarrow> 's world
     \<Rightarrow> (string + (('a \<times> 'b \<times> error option) \<times> 's world)) option" where
  "Retry2 ctx pauseSeq f t1 t2 g =
     Retry2_end (Backoff ctx pauseSeq (Retry2_body f) (None, t1, t2, None) g)"

type_synonym ('a, 'b, 'c, 's) op3 =
  "int \<Rightarrow> duration \<Rightarrow> 's \<Rightarrow> (duration \<times> 'a \<times> 'b \<times> 'c \<times> error option) \<times> 's"

fun Retry3_body ::
  "('a, 'b, 'c, 's) op3
     \<Rightarrow> (('a \<times> 'b \<times> 'c \<times> error option) option \<times> 'a \<times> 'b \<times> 'c \<times> error option, 's) yield2" where
  "Retry3_body f i nw (ret, t1, t2, t3, err) g =
     (case f i nw (user g) of
        ((nw', t1', t2', t3', err'), u') \<Rightarrow>
          if errors_Is err' ErrUnrecoverable
          then Inr (False, nw', (Some (t1', t2', t3', err'), t1', t2', t3', err'), g\<lparr>user := u'\<rparr>)
          else if err' \<noteq> None then Inr (True, nw', (ret, t1', t2', t3', err'), g\<lparr>user := u'\<rparr>)
          else Inr (False, nw', (Some (t1', t2', t3', None), t1', t2', t3', err'), g\<lparr>user := u'\<rparr>))"

definition Retry3_end ::
  "(string + ((('a \<times> 'b \<times> 'c \<times> error option) option \<times> 'a \<times> 'b \<times> 'c \<times> error option)
      \<times> 's world)) option
     \<Rightarrow> (string + (('a \<times> 'b \<times> 'c \<times> error option) \<times> 's world)) option" where
  "Retry3_end r =
     map_option (map_sum id
       (\<lambda>((ret, t1, t2, t3, err), g).
          (case ret of Some v \<Rightarrow> v | None \<Rightarrow> (t1, t2, t3, err), g))) r"

definition Retry3 ::
  "context
     \<Rightarrow> (bool \<times> int \<times> ('a \<times> 'b \<times> 'c \<times> error option) option
          \<times> 'a \<times> 'b \<times> 'c \<times> error option, 's) seq
     \<Rightarrow> ('a, 'b, 'c, 's) op3 \<Rightarrow> 'a \<Rightarrow> 'b \<Rightarrow> 'c \<Rightarrow> 's world
     \<Rightarrow> (string + (('a \<times> 'b \<times> 'c \<times> error option) \<times> 's world)) option" where
  "Retry3 ctx pauseSeq f t1 t2 t3 g =
     Retry3_end (Backoff ctx pauseSeq (Retry3_body f) (None, t1, t2, t3, None) g)"

section \<open>Observing a run\<close>

text \<open>
  \<open>Collect\<close> ranges over a sequence and appends every value to a slice
  (\<open>slices.Collect\<close>).
\<close>

definition Collect_body :: "(duration list, 's) yield" where
  "Collect_body v l g = Inr (True, l @ [v], g)"

definition Collect ::
  "(duration list, 's) seq \<Rightarrow> 's world \<Rightarrow> (string + (duration list \<times> 's world)) option" where
  "Collect seq g = seq Collect_body [] g"

text \<open>
  A source that counts the elements it hands out: the counter is the state of the
  closures, incremented before each element is passed on.
\<close>

definition count_pulls_body :: "('l, nat) yield \<Rightarrow> ('l, nat) yield" where
  "count_pulls_body yield nw l g = yield nw l (g\<lparr>user := Suc (user g)\<rparr>)"

definition count_pulls :: "('l, nat) seq \<Rightarrow> ('l, nat) seq" where
  "count_pulls seq yield l g = seq (count_pulls_body yield) l g"

text \<open>An operation that counts its invocations, next to its own state.\<close>

fun count_calls ::
  "(int \<Rightarrow> duration \<Rightarrow> 's \<Rightarrow> 'r \<times> 's) \<Rightarrow> int \<Rightarrow> duration \<Rightarrow> nat \<times> 's \<Rightarrow> 'r \<times> (nat \<times> 's)" where
  "count_calls f i nw (n, s) = (fst (f i nw s), (Suc n, snd (f i nw s)))"

text \<open>
  A loop body over \<open>Backoff\<close> that notes, for every iteration, the index and the duration
  it finds behind the pointer, whether the body proper goes on to the next iteration, and
  the duration it leaves behind the pointer.
\<close>

fun note_calls ::
  "('l, 's) yield2 \<Rightarrow> ((int \<times> duration \<times> bool \<times> duration) list \<times> 'l, 's) yield2" where
  "note_calls yield i nw (seen, l) g =
     (case yield i nw l g of
        Inl p \<Rightarrow> Inl p
      | Inr (c, nw', l', g') \<Rightarrow> Inr (c, nw', (seen @ [(i, nw, c, nw')], l'), g'))"

text \<open>The pair an iteration was given, and whether \<open>Backoff\<close> goes on to a wait after it.\<close>

fun given :: "int \<times> duration \<times> bool \<times> duration \<Rightarrow> int \<times> duration" where
  "given (i, nw, c, nw') = (i, nw)"

fun went_on :: "int \<times> duration \<times> bool \<times> duration \<Rightarrow> bool" where
  "went_on (i, nw, c, nw') = (if c then 0 \<le> nw' else False)"

text \<open>The pairs of a backoff over the durations \<open>nws\<close> that starts at index \<open>i\<close>.\<close>

fun pairs_from :: "int \<Rightarrow> duration list \<Rightarrow> (int \<times> duration) list" where
  "pairs_from i [] = []"
| "pairs_from i (nw # nws) = (i, nw) # pairs_from (i + 1) nws"

text \<open>
  What an invocation of an operation of \<open>Retry1\<close> returns: the duration left behind the
  pointer, the value, the error, and the state of the closure afterwards.
\<close>

type_synonym ('a, 's) outcome1 = "(duration \<times> 'a \<times> error option) \<times> 's"

definition handle_of :: "('a, 's) outcome1 \<Rightarrow> duration" where
  "handle_of r = fst (fst r)"

definition value_of :: "('a, 's) outcome1 \<Rightarrow> 'a" where
  "value_of r = fst (snd (fst r))"

definition error_of :: "('a, 's) outcome1 \<Rightarrow> error option" where
  "error_of r = snd (snd (fst r))"

definition state_of :: "('a, 's) outcome1 \<Rightarrow> 's" where
  "state_of r = snd r"

text \<open>A transient error: not nil, and \<open>errors.Is(err, ErrUnrecoverable)\<close> is false.\<close>

definition transient :: "error option \<Rightarrow> bool" where
  "transient err = (if errors_Is err ErrUnrecoverable then False else err \<noteq> None)"

text \<open>
  The invocations of \<open>f\<close> when it is called with the indices \<open>i, i + 1, \<dots>\<close> and the
  durations \<open>nws\<close> in turn, each call starting in the state the one before left.
\<close>

fun attempts ::
  "(int \<Rightarrow> duration \<Rightarrow> 's \<Rightarrow> 'r \<times> 's) \<Rightarrow> int \<Rightarrow> duration list \<Rightarrow> 's \<Rightarrow> ('r \<times> 's) list" where
  "attempts f i [] s = []"
| "attempts f i (nw # nws) s = f i nw s # attempts f (i + 1) nws (snd (f i nw s))"

text \<open>
  An invocation after which the loop goes on to a wait: a transient error, and a duration
  behind the pointer that is not negative.
\<close>

definition goes_on :: "('a, 's) outcome1 \<Rightarrow> bool" where
  "goes_on r = (if transient (error_of r) then 0 \<le> handle_of r else False)"

text \<open>The loop of \<open>Backoff\<close>, entered with the index \<open>i\<close>.\<close>

definition Backoff_from ::
  "context \<Rightarrow> (bool \<times> int \<times> 'l, 's) seq \<Rightarrow> ('l, 's) yield2 \<Rightarrow> int \<Rightarrow> 'l \<Rightarrow> 's world
     \<Rightarrow> (string + ('l \<times> 's world)) option" where
  "Backoff_from ctx pauseSeq yield i l g =
     drop_local (appendSentiel pauseSeq (Backoff_body ctx yield) (i, l) g)"

text \<open>
  A world in which nothing has happened yet, and in which a \<open>select\<close> with a closed \<open>Done\<close>
  channel always takes the \<open>Done\<close> case.
\<close>

definition world0 :: "(nat \<Rightarrow> nat) \<Rightarrow> 's \<Rightarrow> 's world" where
  "world0 src u = \<lparr>slept = [], rand_src = src, rand_used = 0, timer_first = (\<lambda>k. False), user = u\<rparr>"

text \<open>
  The invocations of a retry over the finite sequence \<open>xs\<close>: one per element, and one
  for the sentinel.
\<close>

definition calls_of ::
  "(int \<Rightarrow> duration \<Rightarrow> 's \<Rightarrow> 'r \<times> 's) \<Rightarrow> duration list \<Rightarrow> 's \<Rightarrow> ('r \<times> 's) list" where
  "calls_of f xs s = attempts f 0 (xs @ [SentinelDuration]) s"

text \<open>
  The inputs of the repository's examples: the pauses of \<open>Limit(5, Exp(1ms, 1.1))\<close> in
  nanoseconds, and the operations of \<open>ExampleRetry1\<close>, \<open>ExampleRetry1_unrecoverable\<close> and
  \<open>ExampleRetry0_sentinel_next_wait\<close> (the last one also with its index as a value, for
  \<open>Retry1\<close>).
\<close>

definition example_pauses :: "duration list" where
  "example_pauses = [1000000, 1100000, 1210000, 1331000, 1464100]"

definition ExampleRetry1_op :: "(int, unit) op1" where
  "ExampleRetry1_op i nw s =
     (if i < 3 then ((nw, - 1, Some (ErrorString ''spurious error'')), s)
      else ((nw, 42, None), s))"

definition ExampleRetry1_unrecoverable_op :: "(int, unit) op1" where
  "ExampleRetry1_unrecoverable_op i nw s =
     (if i < 3 then ((nw, - 1, Some (ErrorString ''spurious error'')), s)
      else if i = 3 then ((nw, - 2, Some (WrapError ''unrecoverable catastrophic error'' ErrUnrecoverable)), s)
      else ((nw, 42, None), s))"

definition sentinel_next_wait_op :: "(int, unit) op1" where
  "sentinel_next_wait_op i nw s =
     (if i = 3 then ((SentinelDuration, i, Some (ErrorString ''some other error'')), s)
      else ((nw, i, Some (ErrorString ''spurious error'')), s))"

text \<open>What an invocation of an operation of \<open>Retry0\<close> leaves behind the pointer, and its error.\<close>

definition handle0_of :: "(duration \<times> error option) \<times> 's \<Rightarrow> duration" where
  "handle0_of r = fst (fst r)"

definition error0_of :: "(duration \<times> error option) \<times> 's \<Rightarrow> error option" where
  "error0_of r = snd (fst r)"

text \<open>
  The operation of \<open>TestDoWithContext\<close>, which fails on every invocation, and the one of
  \<open>ExampleRetry0_sentinel_next_wait\<close>.
\<close>

definition always_fails :: "unit op0" where
  "always_fails i nw s = ((nw, Some (ErrorString ''this makes it retry'')), s)"

definition ExampleRetry0_sentinel_next_wait_op :: "unit op0" where
  "ExampleRetry0_sentinel_next_wait_op i nw s =
     (if i = 3 then ((SentinelDuration, Some (ErrorString ''some other error'')), s)
      else ((nw, Some (ErrorString ''spurious error'')), s))"

text \<open>Operations with two and three values, for \<open>Retry2\<close> and \<open>Retry3\<close>.\<close>

definition two_values_op :: "(bool, int, unit) op2" where
  "two_values_op i nw s = ((nw, True, i, Some (ErrorString ''spurious error'')), s)"

definition three_values_op :: "(bool, int, duration, unit) op3" where
  "three_values_op i nw s = ((nw, True, i, nw, None), s)"

text \<open>
  After an invocation that left \<open>nw\<close> behind the pointer, a loop over \<open>Backoff\<close> with a
  closed \<open>Done\<close> channel ends: \<open>nw\<close> is negative and the \<open>select\<close> is not entered, or the
  \<open>select\<close> takes the \<open>Done\<close> case and not a timer that has expired already.
\<close>

definition done_is_taken :: "duration \<Rightarrow> 's world \<Rightarrow> bool" where
  "done_is_taken nw g = (if nw < 0 then True else \<not> timer_first g (length (slept g)))"

text \<open>The loop body of \<open>ExampleBackoff\<close>: it reads the duration and goes on.\<close>

definition keep_going :: "(unit, 's) yield2" where
  "keep_going i nw l g = Inr (True, nw, l, g)"

text \<open>The loop body of \<open>ExampleBackoff_override\<close>: in iteration 3 it sets the wait to 100ms.\<close>

definition override_in_iteration_3 :: "(unit, 's) yield2" where
  "override_in_iteration_3 i nw l g = (if i = 3 then Inr (True, 100000000, l, g) else Inr (True, nw, l, g))"

text \<open>A world in which the runtime takes the expired timer in the first \<open>select\<close> only.\<close>

definition timer_wins_once :: "'s \<Rightarrow> 's world" where
  "timer_wins_once u =
     \<lparr>slept = [], rand_src = (\<lambda>k. 0), rand_used = 0, timer_first = (\<lambda>k. k = 0), user = u\<rparr>"

text \<open>
  For the operations of all four drivers, whose invocations return the duration left
  behind the pointer and a result \<open>v\<close> that holds the error (\<open>err v\<close>): an invocation
  after which the loop goes on to a wait.
\<close>

definition goes_on_by :: "('v \<Rightarrow> error option) \<Rightarrow> (duration \<times> 'v) \<times> 's \<Rightarrow> bool" where
  "goes_on_by err r = (if transient (err (snd (fst r))) then 0 \<le> fst (fst r) else False)"

text \<open>
  The invocation of index \<open>i\<close> leaves a negative duration behind the pointer, and the
  invocations before it returned transient errors and left durations that are not
  negative (so that iteration \<open>i\<close> takes place).
\<close>

definition override_in :: "('v \<Rightarrow> error option) \<Rightarrow> ((duration \<times> 'v) \<times> 's) list \<Rightarrow> nat \<Rightarrow> bool" where
  "override_in err cs i =
     (if fst (fst (cs ! i)) < 0
      then list_all (goes_on_by err) (take i cs)
      else False)"

text \<open>
  The operation of \<open>ExampleRetry0_sentinel_next_wait\<close> with two and with three values,
  for \<open>Retry2\<close> and \<open>Retry3\<close>.
\<close>

definition sentinel_next_wait_op2 :: "(int, bool, unit) op2" where
  "sentinel_next_wait_op2 i nw s =
     (if i = 3 then ((SentinelDuration, i, True, Some (ErrorString ''some other error'')), s)
      else ((nw, i, False, Some (ErrorString ''spurious error'')), s))"

definition sentinel_next_wait_op3 :: "(int, bool, duration, unit) op3" where
  "sentinel_next_wait_op3 i nw s =
     (if i = 3 then ((SentinelDuration, i, True, nw, Some (ErrorString ''some other error'')), s)
      else ((nw, i, False, nw, Some (ErrorString ''spurious error'')), s))"

section \<open>Limit\<close>

lemma Limit_Values_collect:
  "drop_local (Values xs (Limit_body Collect_body) (n, acc) g) = Some (Inr (acc @ take (nat n) xs, g))"
proof (induction xs arbitrary: n acc)
  case Nil
  show ?case by (simp add: drop_local_def)
next
  case (Cons x xs)
  show ?case
  proof (cases "n \<le> 0")
    case True
    then show ?thesis by (simp add: drop_local_def)
  next
    case False
    then have n: "nat n = Suc (nat (n - 1))" by simp
    have step: "Values (x # xs) (Limit_body Collect_body) (n, acc) g
        = Values xs (Limit_body Collect_body) (n - 1, acc @ [x]) g"
      using False by (simp add: Collect_body_def)
    show ?thesis
      unfolding step using Cons.IH [of "n - 1" "acc @ [x]"] by (simp add: n)
  qed
qed

lemma Limit_Const_collect:
  "nat n = m \<Longrightarrow> drop_local (Const d (Limit_body Collect_body) (n, acc) g) = Some (Inr (acc @ replicate m d, g))"
proof (induction m arbitrary: n acc)
  case 0
  then have "n \<le> 0" by simp
  then show ?case
    by (subst Const.simps) (simp add: drop_local_def)
next
  case (Suc m)
  then have pos: "\<not> n \<le> 0" and m: "nat (n - 1) = m" by simp_all
  have step: "Const d (Limit_body Collect_body) (n, acc) g
      = Const d (Limit_body Collect_body) (n - 1, acc @ [d]) g"
    using pos by (subst Const.simps) (simp add: Collect_body_def)
  show ?case
    unfolding step using Suc.IH [OF m, of "acc @ [d]"]
    by (simp add: replicate_app_Cons_same)
qed

text \<open>
  C8. \<open>Limit(n, seq)\<close> yields the first \<open>n\<close> values of \<open>seq\<close> in order, and all of them
  when \<open>seq\<close> has fewer: \<open>min(n, |seq|)\<close> values for a finite sequence, \<open>n\<close> values for the
  infinite \<open>Const\<close>. For \<open>n \<le> 0\<close> it yields none. The world is left as it was.
\<close>

theorem Limit_yields_first_n:
  "Collect (Limit n (Values xs)) g = Some (Inr (take (nat n) xs, g))
   \<and> length (take (nat n) xs) = min (nat n) (length xs)
   \<and> Collect (Limit n (Const d)) g = Some (Inr (replicate (nat n) d, g))
   \<and> (n \<le> 0 \<longrightarrow> Collect (Limit n (Values xs)) g = Some (Inr ([], g))
                \<and> Collect (Limit n (Const d)) g = Some (Inr ([], g)))"
  using Limit_Values_collect [of xs n "[]" g] Limit_Const_collect [of n "nat n" d "[]" g]
  by (simp add: Collect_def Limit_def)

theorem Limit_yields_first_n_witness:
  "(- 5 :: int) \<le> 0
   \<and> Collect (Limit (- 5) (Values [1, 2, 3])) (world0 (\<lambda>k. 0) ()) = Some (Inr ([], world0 (\<lambda>k. 0) ()))
   \<and> Collect (Limit (- 5) (Const 7)) (world0 (\<lambda>k. 0) ()) = Some (Inr ([], world0 (\<lambda>k. 0) ()))
   \<and> Collect (Limit 2 (Values [1, 2, 3])) (world0 (\<lambda>k. 0) ()) = Some (Inr ([1, 2], world0 (\<lambda>k. 0) ()))
   \<and> Collect (Limit 2 (Const 7)) (world0 (\<lambda>k. 0) ()) = Some (Inr ([7, 7], world0 (\<lambda>k. 0) ()))"
  using Limit_yields_first_n [of "- 5" "[1, 2, 3]" "world0 (\<lambda>k. 0) ()" 7]
    Limit_yields_first_n [of 2 "[1, 2, 3]" "world0 (\<lambda>k. 0) ()" 7]
  by (simp add: numeral_2_eq_2)

section \<open>The loop of Backoff, one iteration at a time\<close>

lemma Backoff_from_0: "Backoff ctx pauseSeq yield l g = Backoff_from ctx pauseSeq yield 0 l g"
  by (simp add: Backoff_def Backoff_from_def)

lemma Backoff_from_Nil:
  "Backoff_from ctx (Values []) y i l g =
     (case y i SentinelDuration l g of
        Inl p \<Rightarrow> Some (Inl p)
      | Inr (c, nw', l', g') \<Rightarrow>
          if \<not> c then Some (Inr (l', g'))
          else if nw' < 0 then Some (Inr (l', g'))
          else Some (Inr (l', snd (select_wait ctx nw' g'))))"
  by (simp add: Backoff_from_def appendSentiel_def appendSentiel_end_def drop_local_def
      split: sum.splits prod.splits select_case.splits)

lemma Backoff_from_Cons:
  "Backoff_from ctx (Values (x # xs)) y i l g =
     (case y i x l g of
        Inl p \<Rightarrow> Some (Inl p)
      | Inr (c, nw', l', g') \<Rightarrow>
          if \<not> c then Some (Inr (l', g'))
          else if nw' < 0 then Some (Inr (l', g'))
          else (case select_wait ctx nw' g' of
                  (CtxDone, g'') \<Rightarrow> Some (Inr (l', g''))
                | (TimerFired, g'') \<Rightarrow> Backoff_from ctx (Values xs) y (i + 1) l' g''))"
  by (simp add: Backoff_from_def appendSentiel_def appendSentiel_end_def drop_local_def
      split: sum.splits prod.splits select_case.splits)

lemma Backoff_from_Const:
  "Backoff_from ctx (Const d) y i l g =
     (case y i d l g of
        Inl p \<Rightarrow> Some (Inl p)
      | Inr (c, nw', l', g') \<Rightarrow>
          if \<not> c then Some (Inr (l', g'))
          else if nw' < 0 then Some (Inr (l', g'))
          else (case select_wait ctx nw' g' of
                  (CtxDone, g'') \<Rightarrow> Some (Inr (l', g''))
                | (TimerFired, g'') \<Rightarrow> Backoff_from ctx (Const d) y (i + 1) l' g''))"
  unfolding Backoff_from_def appendSentiel_def
  by (subst Const.simps)
     (simp add: appendSentiel_end_def drop_local_def
      split: sum.splits prod.splits select_case.splits)

declare Values.simps [simp del]

lemma select_wait_Background:
  "select_wait Background nw g = (TimerFired, g\<lparr>slept := slept g @ [nw]\<rparr>)"
  by (simp add: select_wait_def)

section \<open>Retry1 over a finite sequence\<close>

lemma length_attempts: "length (attempts f i nws s) = length nws"
  by (induction nws arbitrary: i s) simp_all

lemma Retry1_body_eq:
  "Retry1_body f i nw (ret, t, err) g =
     (if transient (error_of (f i nw (user g)))
      then Inr (True, handle_of (f i nw (user g)),
                (ret, value_of (f i nw (user g)), error_of (f i nw (user g))),
                g\<lparr>user := state_of (f i nw (user g))\<rparr>)
      else Inr (False, handle_of (f i nw (user g)),
                (Some (value_of (f i nw (user g)), error_of (f i nw (user g))),
                 value_of (f i nw (user g)), error_of (f i nw (user g))),
                g\<lparr>user := state_of (f i nw (user g))\<rparr>))"
  by (auto simp: transient_def handle_of_def value_of_def error_of_def state_of_def
      split: prod.splits)

declare Retry1_body.simps [simp del]

lemma Retry1_loop_last:
  "Retry1_end (Backoff_from Background (Values []) (Retry1_body f) i (None, t, err) g) =
     Some (Inr ((value_of (f i SentinelDuration (user g)), error_of (f i SentinelDuration (user g))),
                g\<lparr>slept := slept g @ (if goes_on (f i SentinelDuration (user g))
                                       then [handle_of (f i SentinelDuration (user g))] else []),
                  user := state_of (f i SentinelDuration (user g))\<rparr>))"
  by (subst Backoff_from_Nil)
     (simp add: Retry1_body_eq Retry1_end_def goes_on_def select_wait_Background)

lemma Retry1_loop_stop:
  assumes "\<not> goes_on (f i x (user g))"
  shows "Retry1_end (Backoff_from Background (Values (x # xs)) (Retry1_body f) i (None, t, err) g) =
     Some (Inr ((value_of (f i x (user g)), error_of (f i x (user g))),
                g\<lparr>user := state_of (f i x (user g))\<rparr>))"
  using assms
  by (subst Backoff_from_Cons)
     (simp add: Retry1_body_eq Retry1_end_def goes_on_def split: if_splits)

lemma Retry1_loop_step:
  assumes "goes_on (f i x (user g))"
  shows "Backoff_from Background (Values (x # xs)) (Retry1_body f) i (None, t, err) g =
     Backoff_from Background (Values xs) (Retry1_body f) (i + 1)
       (None, value_of (f i x (user g)), error_of (f i x (user g)))
       (g\<lparr>user := state_of (f i x (user g)), slept := slept g @ [handle_of (f i x (user g))]\<rparr>)"
  using assms
  by (subst Backoff_from_Cons)
     (simp add: Retry1_body_eq goes_on_def select_wait_Background split: if_splits)

lemma Retry1_loop:
  assumes "k \<le> length xs"
    and "\<forall>j<k. goes_on (attempts f i (xs @ [SentinelDuration]) (user g) ! j)"
    and "k < length xs \<longrightarrow> \<not> goes_on (attempts f i (xs @ [SentinelDuration]) (user g) ! k)"
  shows "Retry1_end (Backoff_from Background (Values xs) (Retry1_body f) i (None, t, err) g) =
           Some (Inr ((value_of (attempts f i (xs @ [SentinelDuration]) (user g) ! k),
                       error_of (attempts f i (xs @ [SentinelDuration]) (user g) ! k)),
                      g\<lparr>slept := slept g @ map handle_of
                            (filter goes_on (take (Suc k) (attempts f i (xs @ [SentinelDuration]) (user g)))),
                        user := state_of (attempts f i (xs @ [SentinelDuration]) (user g) ! k)\<rparr>))"
  using assms
proof (induction xs arbitrary: i g t err k)
  case Nil
  then show ?case by (simp add: Retry1_loop_last)
next
  case (Cons x xs)
  let ?r = "f i x (user g)"
  show ?case
  proof (cases k)
    case 0
    with Cons.prems(3) have "\<not> goes_on ?r" by simp
    then show ?thesis by (simp add: 0 Retry1_loop_stop)
  next
    case (Suc k')
    from Cons.prems(2) have first: "goes_on ?r"
      by (auto simp: Suc dest: spec [of _ 0])
    let ?g = "g\<lparr>user := state_of ?r, slept := slept g @ [handle_of ?r]\<rparr>"
    have ug: "user ?g = snd (f i x (user g))" by (simp add: state_of_def)
    have k': "k' \<le> length xs" using Cons.prems(1) Suc by simp
    have rest: "\<forall>j<k'. goes_on (attempts f (i + 1) (xs @ [SentinelDuration]) (user ?g) ! j)"
      using Cons.prems(2) unfolding Suc ug by (auto dest: spec [of _ "Suc j" for j])
    have last: "k' < length xs \<longrightarrow> \<not> goes_on (attempts f (i + 1) (xs @ [SentinelDuration]) (user ?g) ! k')"
      using Cons.prems(3) unfolding Suc ug by simp
    have step: "Backoff_from Background (Values (x # xs)) (Retry1_body f) i (None, t, err) g =
        Backoff_from Background (Values xs) (Retry1_body f) (i + 1) (None, value_of ?r, error_of ?r) ?g"
      using first by (rule Retry1_loop_step)
    show ?thesis
      unfolding step
      using Cons.IH [OF k' rest last, of "value_of ?r" "error_of ?r"] first
      by (simp add: Suc ug)
  qed
qed

lemma nth_attempts_count_calls:
  "j < length nws \<Longrightarrow>
   attempts (count_calls f) i nws (n, s) ! j =
     (fst (attempts f i nws s ! j), (n + Suc j, snd (attempts f i nws s ! j)))"
proof (induction nws arbitrary: i n s j)
  case Nil
  then show ?case by simp
next
  case (Cons nw nws)
  show ?case
  proof (cases j)
    case 0
    then show ?thesis by simp
  next
    case (Suc j')
    with Cons.prems have "j' < length nws" by simp
    from Cons.IH [OF this, of "i + 1" "Suc n" "snd (f i nw s)"]
    show ?thesis by (simp add: Suc)
  qed
qed

lemma counted_outcome:
  assumes "j < length nws"
  shows "handle_of (attempts (count_calls f) i nws (n, s) ! j) = handle_of (attempts f i nws s ! j)"
    and "value_of (attempts (count_calls f) i nws (n, s) ! j) = value_of (attempts f i nws s ! j)"
    and "error_of (attempts (count_calls f) i nws (n, s) ! j) = error_of (attempts f i nws s ! j)"
    and "state_of (attempts (count_calls f) i nws (n, s) ! j) = (n + Suc j, state_of (attempts f i nws s ! j))"
    and "goes_on (attempts (count_calls f) i nws (n, s) ! j) = goes_on (attempts f i nws s ! j)"
  using nth_attempts_count_calls [OF assms, of f i n s]
  by (simp_all add: handle_of_def value_of_def error_of_def state_of_def goes_on_def)

lemma Retry1_as_loop:
  "Retry1 ctx seq f t0 g = Retry1_end (Backoff_from ctx seq (Retry1_body f) 0 (None, t0, None) g)"
  by (simp add: Retry1_def Backoff_from_0)

text \<open>The run of a counted operation that ends with the invocation of index \<open>k\<close>.\<close>

lemma Retry1_ends_at:
  fixes g :: "(nat \<times> 's) world"
  assumes "k \<le> length xs"
    and "\<forall>j<k. goes_on (calls_of f xs (snd (user g)) ! j)"
    and "\<not> goes_on (calls_of f xs (snd (user g)) ! k)"
  shows "Retry1 Background (Values xs) (count_calls f) t0 g =
           Some (Inr ((value_of (calls_of f xs (snd (user g)) ! k),
                       error_of (calls_of f xs (snd (user g)) ! k)),
                      g\<lparr>slept := slept g @ map handle_of (take k (calls_of f xs (snd (user g)))),
                        user := (fst (user g) + Suc k, state_of (calls_of f xs (snd (user g)) ! k))\<rparr>))"
proof -
  obtain n s where ug: "user g = (n, s)" by (cases "user g")
  let ?as = "calls_of f xs s"
  let ?cs = "attempts (count_calls f) 0 (xs @ [SentinelDuration]) (n, s)"
  have len: "length ?cs = Suc (length xs)" "length ?as = Suc (length xs)"
    by (simp_all add: length_attempts calls_of_def)
  have nth: "handle_of (?cs ! j) = handle_of (?as ! j) \<and> value_of (?cs ! j) = value_of (?as ! j)
      \<and> error_of (?cs ! j) = error_of (?as ! j)
      \<and> state_of (?cs ! j) = (n + Suc j, state_of (?as ! j))
      \<and> goes_on (?cs ! j) = goes_on (?as ! j)" if "j \<le> length xs" for j
    unfolding calls_of_def using that by (simp add: counted_outcome)
  have before: "\<forall>j<k. goes_on (?cs ! j)"
    using assms(1,2) nth by (simp add: ug)
  have notk: "\<not> goes_on (?cs ! k)"
    using assms(1,3) nth by (simp add: ug)
  have "take (Suc k) ?cs = take k ?cs @ [?cs ! k]"
    using assms(1) len by (simp add: take_Suc_conv_app_nth)
  moreover have "\<forall>r \<in> set (take k ?cs). goes_on r"
  proof
    fix r assume "r \<in> set (take k ?cs)"
    then obtain j where "j < k" "r = ?cs ! j"
      using assms(1) len by (auto simp: in_set_conv_nth)
    with before show "goes_on r" by simp
  qed
  ultimately have filt: "filter goes_on (take (Suc k) ?cs) = take k ?cs"
    using notk by simp
  have "map handle_of (take k ?cs) = map handle_of (take k ?as)"
  proof (rule nth_equalityI)
    show "length (map handle_of (take k ?cs)) = length (map handle_of (take k ?as))"
      using len by simp
  next
    fix j assume "j < length (map handle_of (take k ?cs))"
    then have "j < k" "j \<le> length xs" using assms(1) len by simp_all
    then show "map handle_of (take k ?cs) ! j = map handle_of (take k ?as) ! j"
      using assms(1) len nth [of j] by simp
  qed
  with filt have waits: "map handle_of (filter goes_on (take (Suc k) ?cs)) = map handle_of (take k ?as)"
    by simp
  have loop: "Retry1_end (Backoff_from Background (Values xs) (Retry1_body (count_calls f)) 0 (None, t0, None) g) =
           Some (Inr ((value_of (?cs ! k), error_of (?cs ! k)),
                      g\<lparr>slept := slept g @ map handle_of (filter goes_on (take (Suc k) ?cs)),
                        user := state_of (?cs ! k)\<rparr>))"
    using Retry1_loop [of k xs "count_calls f" 0 g t0 None] assms(1) before notk
    by (simp add: ug)
  show ?thesis
    unfolding Retry1_as_loop loop waits
    using nth [OF assms(1)] by (simp add: ug)
qed

lemma goes_on_iff: "goes_on r \<longleftrightarrow> transient (error_of r) \<and> 0 \<le> handle_of r"
  by (simp add: goes_on_def)

text \<open>
  C5. When the \<open>k\<close>-th invocation (counted from 1) of the operation returns a nil error,
  the invocations before it having returned transient errors and left a pause that is not
  negative, \<open>Retry1\<close> over a finite sequence of at least \<open>k - 1\<close> pauses returns the value of
  that invocation with a nil error; the operation has been invoked \<open>k\<close> times and \<open>k - 1\<close>
  waits have been completed, one after each earlier invocation.
\<close>

theorem Retry1_success_on_kth_invocation:
  fixes g :: "(nat \<times> 's) world"
  assumes "1 \<le> k" and "k \<le> Suc (length xs)"
    and "\<forall>j<k - 1. transient (error_of (calls_of f xs (snd (user g)) ! j))
                   \<and> 0 \<le> handle_of (calls_of f xs (snd (user g)) ! j)"
    and "error_of (calls_of f xs (snd (user g)) ! (k - 1)) = None"
  shows "Retry1 Background (Values xs) (count_calls f) t0 g =
           Some (Inr ((value_of (calls_of f xs (snd (user g)) ! (k - 1)), None),
                      g\<lparr>slept := slept g @ map handle_of (take (k - 1) (calls_of f xs (snd (user g)))),
                        user := (fst (user g) + k, state_of (calls_of f xs (snd (user g)) ! (k - 1)))\<rparr>))
         \<and> length (map handle_of (take (k - 1) (calls_of f xs (snd (user g))))) = k - 1"
proof -
  have k: "k - 1 \<le> length xs" "Suc (k - 1) = k" using assms(1,2) by simp_all
  have before: "\<forall>j<k - 1. goes_on (calls_of f xs (snd (user g)) ! j)"
    using assms(3) by (simp add: goes_on_iff)
  have last: "\<not> goes_on (calls_of f xs (snd (user g)) ! (k - 1))"
    using assms(4) by (simp add: goes_on_iff transient_def)
  have len: "length (calls_of f xs (snd (user g))) = Suc (length xs)"
    by (simp add: calls_of_def length_attempts)
  show ?thesis
    using Retry1_ends_at [OF k(1) before last, of t0] assms(4) k len by simp
qed

theorem Retry1_success_on_kth_invocation_witness:
  "(1::nat) \<le> 4 \<and> 4 \<le> Suc (length example_pauses)
   \<and> transient (error_of (calls_of ExampleRetry1_op example_pauses () ! 0))
   \<and> 0 \<le> handle_of (calls_of ExampleRetry1_op example_pauses () ! 0)
   \<and> transient (error_of (calls_of ExampleRetry1_op example_pauses () ! 1))
   \<and> 0 \<le> handle_of (calls_of ExampleRetry1_op example_pauses () ! 1)
   \<and> transient (error_of (calls_of ExampleRetry1_op example_pauses () ! 2))
   \<and> 0 \<le> handle_of (calls_of ExampleRetry1_op example_pauses () ! 2)
   \<and> error_of (calls_of ExampleRetry1_op example_pauses () ! 3) = None
   \<and> Retry1 Background (Values example_pauses) (count_calls ExampleRetry1_op) 0 (world0 (\<lambda>k. 0) (0, ())) =
       Some (Inr ((42, None),
                  (world0 (\<lambda>k. 0) (0, ()))\<lparr>slept := [1000000, 1100000, 1210000], user := (4, ())\<rparr>))"
proof -
  let ?g = "world0 (\<lambda>k. 0) (0 :: nat, ())"
  have cs: "calls_of ExampleRetry1_op example_pauses () =
      [((1000000, - 1, Some (ErrorString ''spurious error'')), ()),
       ((1100000, - 1, Some (ErrorString ''spurious error'')), ()),
       ((1210000, - 1, Some (ErrorString ''spurious error'')), ()),
       ((1331000, 42, None), ()),
       ((1464100, 42, None), ()),
       ((- 1, 42, None), ())]"
    by (simp add: calls_of_def example_pauses_def ExampleRetry1_op_def SentinelDuration_def)
  have u: "snd (user ?g) = ()" by simp
  have h1: "(1::nat) \<le> 4" and h2: "4 \<le> Suc (length example_pauses)"
    by (simp_all add: example_pauses_def)
  have h3: "\<forall>j<4 - 1. transient (error_of (calls_of ExampleRetry1_op example_pauses (snd (user ?g)) ! j))
                   \<and> 0 \<le> handle_of (calls_of ExampleRetry1_op example_pauses (snd (user ?g)) ! j)"
    unfolding u cs
    by (simp add: less_Suc_eq numeral_3_eq_3 transient_def error_of_def handle_of_def all_conj_distrib)
  have h4: "error_of (calls_of ExampleRetry1_op example_pauses (snd (user ?g)) ! (4 - 1)) = None"
    unfolding u cs by (simp add: error_of_def)
  show ?thesis
    using Retry1_success_on_kth_invocation [OF h1 h2 h3 h4, of 0] h1 h2
    unfolding u cs
    by (simp add: transient_def error_of_def handle_of_def value_of_def state_of_def world0_def)
qed

text \<open>
  C4. When the \<open>k\<close>-th invocation (counted from 1) returns an error whose chain holds
  \<open>ErrUnrecoverable\<close>, the invocations before it having returned transient errors and left
  a pause that is not negative, \<open>Retry1\<close> returns that error together with the value of
  that invocation; the operation has been invoked \<open>k\<close> times and \<open>k - 1\<close> waits have been
  completed.
\<close>

theorem Retry1_unrecoverable_on_kth_invocation:
  fixes g :: "(nat \<times> 's) world"
  assumes "1 \<le> k" and "k \<le> Suc (length xs)"
    and "\<forall>j<k - 1. transient (error_of (calls_of f xs (snd (user g)) ! j))
                   \<and> 0 \<le> handle_of (calls_of f xs (snd (user g)) ! j)"
    and "errors_Is (error_of (calls_of f xs (snd (user g)) ! (k - 1))) ErrUnrecoverable"
  shows "Retry1 Background (Values xs) (count_calls f) t0 g =
           Some (Inr ((value_of (calls_of f xs (snd (user g)) ! (k - 1)),
                       error_of (calls_of f xs (snd (user g)) ! (k - 1))),
                      g\<lparr>slept := slept g @ map handle_of (take (k - 1) (calls_of f xs (snd (user g)))),
                        user := (fst (user g) + k, state_of (calls_of f xs (snd (user g)) ! (k - 1)))\<rparr>))
         \<and> length (map handle_of (take (k - 1) (calls_of f xs (snd (user g))))) = k - 1"
proof -
  have k: "k - 1 \<le> length xs" "Suc (k - 1) = k" using assms(1,2) by simp_all
  have before: "\<forall>j<k - 1. goes_on (calls_of f xs (snd (user g)) ! j)"
    using assms(3) by (simp add: goes_on_iff)
  have last: "\<not> goes_on (calls_of f xs (snd (user g)) ! (k - 1))"
    using assms(4) by (simp add: goes_on_iff transient_def)
  have len: "length (calls_of f xs (snd (user g))) = Suc (length xs)"
    by (simp add: calls_of_def length_attempts)
  show ?thesis
    using Retry1_ends_at [OF k(1) before last, of t0] k len by simp
qed

theorem Retry1_unrecoverable_on_kth_invocation_witness:
  "(1::nat) \<le> 4 \<and> 4 \<le> Suc (length example_pauses)
   \<and> transient (error_of (calls_of ExampleRetry1_unrecoverable_op example_pauses () ! 0))
   \<and> 0 \<le> handle_of (calls_of ExampleRetry1_unrecoverable_op example_pauses () ! 0)
   \<and> transient (error_of (calls_of ExampleRetry1_unrecoverable_op example_pauses () ! 1))
   \<and> 0 \<le> handle_of (calls_of ExampleRetry1_unrecoverable_op example_pauses () ! 1)
   \<and> transient (error_of (calls_of ExampleRetry1_unrecoverable_op example_pauses () ! 2))
   \<and> 0 \<le> handle_of (calls_of ExampleRetry1_unrecoverable_op example_pauses () ! 2)
   \<and> errors_Is (error_of (calls_of ExampleRetry1_unrecoverable_op example_pauses () ! 3)) ErrUnrecoverable
   \<and> Retry1 Background (Values example_pauses) (count_calls ExampleRetry1_unrecoverable_op) 0
         (world0 (\<lambda>k. 0) (0, ())) =
       Some (Inr ((- 2, Some (WrapError ''unrecoverable catastrophic error'' ErrUnrecoverable)),
                  (world0 (\<lambda>k. 0) (0, ()))\<lparr>slept := [1000000, 1100000, 1210000], user := (4, ())\<rparr>))"
proof -
  let ?g = "world0 (\<lambda>k. 0) (0 :: nat, ())"
  have cs: "calls_of ExampleRetry1_unrecoverable_op example_pauses () =
      [((1000000, - 1, Some (ErrorString ''spurious error'')), ()),
       ((1100000, - 1, Some (ErrorString ''spurious error'')), ()),
       ((1210000, - 1, Some (ErrorString ''spurious error'')), ()),
       ((1331000, - 2, Some (WrapError ''unrecoverable catastrophic error'' ErrUnrecoverable)), ()),
       ((1464100, 42, None), ()),
       ((- 1, 42, None), ())]"
    by (simp add: calls_of_def example_pauses_def ExampleRetry1_unrecoverable_op_def SentinelDuration_def)
  have u: "snd (user ?g) = ()" by simp
  have h1: "(1::nat) \<le> 4" and h2: "4 \<le> Suc (length example_pauses)"
    by (simp_all add: example_pauses_def)
  have h3: "\<forall>j<4 - 1. transient (error_of (calls_of ExampleRetry1_unrecoverable_op example_pauses (snd (user ?g)) ! j))
                   \<and> 0 \<le> handle_of (calls_of ExampleRetry1_unrecoverable_op example_pauses (snd (user ?g)) ! j)"
    unfolding u cs
    by (simp add: less_Suc_eq numeral_3_eq_3 transient_def error_of_def handle_of_def all_conj_distrib)
  have h4: "errors_Is (error_of (calls_of ExampleRetry1_unrecoverable_op example_pauses (snd (user ?g)) ! (4 - 1)))
              ErrUnrecoverable"
    unfolding u cs by (simp add: error_of_def)
  show ?thesis
    using Retry1_unrecoverable_on_kth_invocation [OF h1 h2 h3 h4, of 0] h1 h2
    unfolding u cs
    by (simp add: transient_def error_of_def handle_of_def value_of_def state_of_def world0_def)
qed

section \<open>Retry0 with an operation that always fails\<close>

lemma Retry0_as_loop:
  "Retry0 ctx seq f g = Retry0_end (Backoff_from ctx seq (Retry0_body f) 0 (None, None) g)"
  by (simp add: Retry0_def Backoff_from_0)

lemma Retry0_body_eq:
  "Retry0_body f i nw (ret, err) g =
     (if transient (error0_of (f i nw (user g)))
      then Inr (True, handle0_of (f i nw (user g)), (ret, error0_of (f i nw (user g))),
                g\<lparr>user := snd (f i nw (user g))\<rparr>)
      else Inr (False, handle0_of (f i nw (user g)),
                (Some (error0_of (f i nw (user g))), error0_of (f i nw (user g))),
                g\<lparr>user := snd (f i nw (user g))\<rparr>))"
  by (auto simp: transient_def handle0_of_def error0_of_def split: prod.splits)

declare Retry0_body.simps [simp del]

lemma count_calls_eq:
  "count_calls f i nw u = (fst (f i nw (snd u)), (Suc (fst u), snd (f i nw (snd u))))"
  by (cases u) simp

lemma transient_Some: "transient err \<Longrightarrow> \<exists>e. err = Some e"
  by (cases err) (simp_all add: transient_def)

lemma Retry0_all_fail_calls:
  fixes g :: "(nat \<times> 's) world"
  assumes "\<forall>x\<in>set xs. 0 \<le> x"
    and "\<forall>i nw s. transient (error0_of (f i nw s))"
    and "\<forall>i nw s. 0 \<le> nw \<longrightarrow> 0 \<le> handle0_of (f i nw s)"
  shows "\<exists>e g'. Retry0_end (Backoff_from Background (Values xs) (Retry0_body (count_calls f)) i (None, err) g)
                  = Some (Inr (Some e, g'))
               \<and> fst (user g') = fst (user g) + Suc (length xs)"
  using assms(1)
proof (induction xs arbitrary: i err g)
  case Nil
  let ?r = "count_calls f i SentinelDuration (user g)"
  have t: "transient (error0_of ?r)"
    using assms(2) by (simp add: count_calls_eq error0_of_def)
  then obtain e where e: "error0_of ?r = Some e" by (auto dest: transient_Some)
  have cnt: "fst (snd ?r) = Suc (fst (user g))"
    by (simp add: count_calls_eq)
  show ?case
    using t e cnt
    by (subst Backoff_from_Nil)
       (simp add: Retry0_body_eq Retry0_end_def select_wait_Background)
next
  case (Cons x xs)
  let ?r = "count_calls f i x (user g)"
  let ?g = "g\<lparr>user := snd ?r, slept := slept g @ [handle0_of ?r]\<rparr>"
  have t: "transient (error0_of ?r)"
    using assms(2) by (simp add: count_calls_eq error0_of_def)
  have h: "0 \<le> handle0_of ?r"
    using assms(3) Cons.prems by (simp add: count_calls_eq handle0_of_def)
  have step: "Backoff_from Background (Values (x # xs)) (Retry0_body (count_calls f)) i (None, err) g
      = Backoff_from Background (Values xs) (Retry0_body (count_calls f)) (i + 1) (None, error0_of ?r) ?g"
    using t h
    by (subst Backoff_from_Cons) (simp add: Retry0_body_eq select_wait_Background)
  have cnt: "fst (snd ?r) = Suc (fst (user g))"
    by (simp add: count_calls_eq)
  from Cons.prems have "\<forall>x\<in>set xs. 0 \<le> x" by simp
  from Cons.IH [OF this, of "i + 1" "error0_of ?r" ?g]
  show ?case unfolding step by (simp add: cnt)
qed

lemma Retry0_all_fail_waits:
  assumes "\<forall>x\<in>set xs. 0 \<le> x"
    and "\<forall>i nw s. transient (error0_of (f i nw s))"
    and "\<forall>i nw s. handle0_of (f i nw s) = nw"
  shows "\<exists>e g'. Retry0_end (Backoff_from Background (Values xs) (Retry0_body f) i (None, err) g)
                  = Some (Inr (Some e, g'))
               \<and> slept g' = slept g @ xs"
  using assms(1)
proof (induction xs arbitrary: i err g)
  case Nil
  let ?r = "f i SentinelDuration (user g)"
  have t: "transient (error0_of ?r)" using assms(2) by simp
  then obtain e where e: "error0_of ?r = Some e" by (auto dest: transient_Some)
  have h: "handle0_of ?r = SentinelDuration" using assms(3) by simp
  show ?case
    using t e h
    by (subst Backoff_from_Nil)
       (simp add: Retry0_body_eq Retry0_end_def SentinelDuration_def)
next
  case (Cons x xs)
  let ?r = "f i x (user g)"
  let ?g = "g\<lparr>user := snd ?r, slept := slept g @ [x]\<rparr>"
  have t: "transient (error0_of ?r)" using assms(2) by simp
  have h: "handle0_of ?r = x" using assms(3) by simp
  have x: "0 \<le> x" using Cons.prems by simp
  have step: "Backoff_from Background (Values (x # xs)) (Retry0_body f) i (None, err) g
      = Backoff_from Background (Values xs) (Retry0_body f) (i + 1) (None, error0_of ?r) ?g"
    using t h x
    by (subst Backoff_from_Cons) (simp add: Retry0_body_eq select_wait_Background)
  from Cons.prems have "\<forall>x\<in>set xs. 0 \<le> x" by simp
  from Cons.IH [OF this, of "i + 1" "error0_of ?r" ?g]
  show ?case unfolding step by simp
qed

text \<open>
  C2, as amended. Over a finite sequence of \<open>n\<close> pauses, none negative, with a live
  context, an operation that returns a transient error on every invocation and never
  turns a pause that is not negative into a negative one is invoked exactly \<open>n + 1\<close>
  times by \<open>Retry0\<close>, which then returns an error.
\<close>

theorem Retry0_invocations_of_failing_operation:
  fixes g :: "(nat \<times> 's) world"
  assumes "\<forall>x\<in>set xs. 0 \<le> x"
    and "\<forall>i nw s. transient (error0_of (f i nw s))"
    and "\<forall>i nw s. 0 \<le> nw \<longrightarrow> 0 \<le> handle0_of (f i nw s)"
  shows "\<exists>e g'. Retry0 Background (Values xs) (count_calls f) g = Some (Inr (Some e, g'))
               \<and> fst (user g') = fst (user g) + (length xs + 1)"
  using Retry0_all_fail_calls [OF assms, of 0 None g]
  by (simp add: Retry0_as_loop)

text \<open>
  C6, as amended. Over a finite sequence \<open>xs\<close> of pauses, none of them negative, with a
  live context and an operation that always fails transiently and leaves the pointer
  alone, \<open>Retry0\<close> completes exactly the waits \<open>xs\<close>, in order: as many as there are
  pauses, and none of them is \<open>SentinelDuration\<close>.
\<close>

theorem Retry0_waits_are_the_pauses:
  assumes "\<forall>x\<in>set xs. 0 \<le> x"
    and "\<forall>i nw s. transient (error0_of (f i nw s))"
    and "\<forall>i nw s. handle0_of (f i nw s) = nw"
  shows "\<exists>e g'. Retry0 Background (Values xs) f g = Some (Inr (Some e, g'))
               \<and> slept g' = slept g @ xs
               \<and> length (slept g') = length (slept g) + length xs
               \<and> SentinelDuration \<notin> set xs"
proof -
  have "SentinelDuration \<notin> set xs"
    using assms(1) by (auto simp: SentinelDuration_def)
  with Retry0_all_fail_waits [OF assms, of 0 None g]
  show ?thesis by (auto simp: Retry0_as_loop)
qed

lemma always_fails_transient: "transient (error0_of (always_fails i nw s))"
  by (simp add: always_fails_def error0_of_def transient_def)

lemma sentinel_next_wait_op_transient:
  "transient (error0_of (ExampleRetry0_sentinel_next_wait_op i nw s))"
  by (simp add: ExampleRetry0_sentinel_next_wait_op_def error0_of_def transient_def)

lemmas run_simps =
  Backoff_def appendSentiel_def appendSentiel_end_def drop_local_def Values.simps
  select_wait_def SentinelDuration_def world0_def

text \<open>
  C2 as stated fails: the operation of \<open>ExampleRetry0_sentinel_next_wait\<close> returns a
  transient error on every invocation, and over five pauses it is invoked four times, not
  six, because it leaves \<open>SentinelDuration\<close> behind the pointer in iteration 3.
\<close>

theorem Retry0_invocations_counterexample:
  "Retry0 Background (Values example_pauses) (count_calls ExampleRetry0_sentinel_next_wait_op)
       (world0 (\<lambda>k. 0) (0, ())) =
     Some (Inr (Some (ErrorString ''some other error''),
                (world0 (\<lambda>k. 0) (0, ()))\<lparr>slept := [1000000, 1100000, 1210000], user := (4, ())\<rparr>))
   \<and> (4::nat) \<noteq> length example_pauses + 1"
  by (simp add: Retry0_def Retry0_end_def Retry0_body.simps run_simps example_pauses_def
      ExampleRetry0_sentinel_next_wait_op_def)

text \<open>
  C6 as stated fails: a sequence may yield a negative duration, which ends the loop as the
  sentinel does. Over \<open>5, -3, 7\<close> one wait is completed, not three.
\<close>

theorem Retry0_waits_counterexample:
  "Retry0 Background (Values [5, - 3, 7]) always_fails (world0 (\<lambda>k. 0) ()) =
     Some (Inr (Some (ErrorString ''this makes it retry''), (world0 (\<lambda>k. 0) ())\<lparr>slept := [5]\<rparr>))
   \<and> [5] \<noteq> [5, - 3, 7 :: duration]
   \<and> length [5 :: duration] \<noteq> length [5, - 3, 7 :: duration]"
  by (simp add: Retry0_def Retry0_end_def Retry0_body.simps run_simps always_fails_def)

theorem Retry0_invocations_of_failing_operation_witness:
  "\<exists>e g'. Retry0 Background (Values example_pauses) (count_calls always_fails) (world0 (\<lambda>k. 0) (0, ()))
              = Some (Inr (Some e, g'))
         \<and> fst (user g') = 6"
proof -
  have h1: "\<forall>x\<in>set example_pauses. 0 \<le> x" by (simp add: example_pauses_def)
  have h2: "\<forall>i nw s. transient (error0_of (always_fails i nw s))"
    by (simp add: always_fails_transient)
  have h3: "\<forall>i nw s. 0 \<le> nw \<longrightarrow> 0 \<le> handle0_of (always_fails i nw s)"
    by (simp add: always_fails_def handle0_of_def)
  show ?thesis
    using Retry0_invocations_of_failing_operation [OF h1 h2 h3, of "world0 (\<lambda>k. 0) (0, ())"]
    by (simp add: example_pauses_def world0_def eval_nat_numeral)
qed

theorem Retry0_waits_are_the_pauses_witness:
  "\<exists>e g'. Retry0 Background (Values example_pauses) always_fails (world0 (\<lambda>k. 0) ())
              = Some (Inr (Some e, g'))
         \<and> slept g' = [1000000, 1100000, 1210000, 1331000, 1464100]
         \<and> length (slept g') = 5"
proof -
  have h1: "\<forall>x\<in>set example_pauses. 0 \<le> x" by (simp add: example_pauses_def)
  have h2: "\<forall>i nw s. transient (error0_of (always_fails i nw s))"
    by (simp add: always_fails_transient)
  have h3: "\<forall>i nw s. handle0_of (always_fails i nw s) = nw"
    by (simp add: always_fails_def handle0_of_def)
  show ?thesis
    using Retry0_waits_are_the_pauses [OF h1 h2 h3, of "world0 (\<lambda>k. 0) ()"]
    by (auto simp: example_pauses_def world0_def)
qed

section \<open>A context cancelled before the call\<close>

lemma Retry0_cancelled:
  fixes g :: "(nat \<times> 's) world"
  assumes "done_is_taken (fst (fst (f 0 d (snd (user g))))) g"
  shows "Retry0 (Cancelled e) (Const d) (count_calls f) g =
           Some (Inr (snd (fst (f 0 d (snd (user g)))),
                      g\<lparr>user := (Suc (fst (user g)), snd (f 0 d (snd (user g))))\<rparr>))"
  unfolding Retry0_as_loop using assms
  by (subst Backoff_from_Const)
     (auto simp: Retry0_end_def Retry0_body.simps select_wait_def done_is_taken_def count_calls_eq
        split: prod.splits if_splits)

lemma Retry1_cancelled:
  fixes g :: "(nat \<times> 's) world"
  assumes "done_is_taken (fst (fst (f 0 d (snd (user g))))) g"
  shows "Retry1 (Cancelled e) (Const d) (count_calls f) t0 g =
           Some (Inr (snd (fst (f 0 d (snd (user g)))),
                      g\<lparr>user := (Suc (fst (user g)), snd (f 0 d (snd (user g))))\<rparr>))"
  unfolding Retry1_as_loop using assms
  by (subst Backoff_from_Const)
     (auto simp: Retry1_end_def Retry1_body.simps select_wait_def done_is_taken_def count_calls_eq
        split: prod.splits if_splits)

lemma Retry2_cancelled:
  fixes g :: "(nat \<times> 's) world"
  assumes "done_is_taken (fst (fst (f 0 d (snd (user g))))) g"
  shows "Retry2 (Cancelled e) (Const d) (count_calls f) t1 t2 g =
           Some (Inr (snd (fst (f 0 d (snd (user g)))),
                      g\<lparr>user := (Suc (fst (user g)), snd (f 0 d (snd (user g))))\<rparr>))"
  unfolding Retry2_def Backoff_from_0 using assms
  by (subst Backoff_from_Const)
     (auto simp: Retry2_end_def select_wait_def done_is_taken_def count_calls_eq
        split: prod.splits if_splits)

lemma Retry3_cancelled:
  fixes g :: "(nat \<times> 's) world"
  assumes "done_is_taken (fst (fst (f 0 d (snd (user g))))) g"
  shows "Retry3 (Cancelled e) (Const d) (count_calls f) t1 t2 t3 g =
           Some (Inr (snd (fst (f 0 d (snd (user g)))),
                      g\<lparr>user := (Suc (fst (user g)), snd (f 0 d (snd (user g))))\<rparr>))"
  unfolding Retry3_def Backoff_from_0 using assms
  by (subst Backoff_from_Const)
     (auto simp: Retry3_end_def select_wait_def done_is_taken_def count_calls_eq
        split: prod.splits if_splits)

text \<open>
  C1, as amended. With a context cancelled before the call and the forever sequence
  \<open>Const d\<close>, each of \<open>Retry0\<close>, \<open>Retry1\<close>, \<open>Retry2\<close> and \<open>Retry3\<close> invokes the operation
  exactly once and returns what that invocation returned, error and values, provided the
  loop ends after it: the invocation left a negative duration behind the pointer, or the
  \<open>select\<close> takes the \<open>Done\<close> case and not a timer that has expired already. The reason of
  the context is not consulted.
\<close>

theorem Retry_cancelled_before_entry:
  fixes g :: "(nat \<times> 's) world"
  assumes "done_is_taken (fst (fst (fa 0 d (snd (user g))))) g"
    and "done_is_taken (fst (fst (fb 0 d (snd (user g))))) g"
    and "done_is_taken (fst (fst (fc 0 d (snd (user g))))) g"
    and "done_is_taken (fst (fst (fd 0 d (snd (user g))))) g"
  shows "Retry0 (Cancelled e) (Const d) (count_calls fa) g =
           Some (Inr (snd (fst (fa 0 d (snd (user g)))),
                      g\<lparr>user := (Suc (fst (user g)), snd (fa 0 d (snd (user g))))\<rparr>))
       \<and> Retry1 (Cancelled e) (Const d) (count_calls fb) ta g =
           Some (Inr (snd (fst (fb 0 d (snd (user g)))),
                      g\<lparr>user := (Suc (fst (user g)), snd (fb 0 d (snd (user g))))\<rparr>))
       \<and> Retry2 (Cancelled e) (Const d) (count_calls fc) ua ub g =
           Some (Inr (snd (fst (fc 0 d (snd (user g)))),
                      g\<lparr>user := (Suc (fst (user g)), snd (fc 0 d (snd (user g))))\<rparr>))
       \<and> Retry3 (Cancelled e) (Const d) (count_calls fd) va vb vc g =
           Some (Inr (snd (fst (fd 0 d (snd (user g)))),
                      g\<lparr>user := (Suc (fst (user g)), snd (fd 0 d (snd (user g))))\<rparr>))"
  using assms Retry0_cancelled [of fa d g e] Retry1_cancelled [of fb d g e ta]
    Retry2_cancelled [of fc d g e ua ub] Retry3_cancelled [of fd d g e va vb vc]
  by simp

theorem Retry_cancelled_before_entry_witness:
  "done_is_taken 1000000000 (world0 (\<lambda>k. 0) (0 :: nat, ()))
   \<and> Retry0 (Cancelled Canceled) (Const 1000000000) (count_calls always_fails) (world0 (\<lambda>k. 0) (0, ())) =
     Some (Inr (Some (ErrorString ''this makes it retry''), (world0 (\<lambda>k. 0) (0, ()))\<lparr>user := (1, ())\<rparr>))
   \<and> Retry1 (Cancelled Canceled) (Const 1000000000) (count_calls ExampleRetry1_op) 0
         (world0 (\<lambda>k. 0) (0, ())) =
     Some (Inr ((- 1, Some (ErrorString ''spurious error'')), (world0 (\<lambda>k. 0) (0, ()))\<lparr>user := (1, ())\<rparr>))
   \<and> Retry2 (Cancelled Canceled) (Const 1000000000) (count_calls two_values_op) False 0
         (world0 (\<lambda>k. 0) (0, ())) =
     Some (Inr ((True, 0, Some (ErrorString ''spurious error'')), (world0 (\<lambda>k. 0) (0, ()))\<lparr>user := (1, ())\<rparr>))
   \<and> Retry3 (Cancelled Canceled) (Const 1000000000) (count_calls three_values_op) False 0 0
         (world0 (\<lambda>k. 0) (0, ())) =
     Some (Inr ((True, 0, 1000000000, None), (world0 (\<lambda>k. 0) (0, ()))\<lparr>user := (1, ())\<rparr>))"
proof -
  let ?g = "world0 (\<lambda>k. 0) (0 :: nat, ())"
  have h: "done_is_taken 1000000000 ?g" by (simp add: done_is_taken_def world0_def)
  have ha: "done_is_taken (fst (fst (always_fails 0 1000000000 (snd (user ?g))))) ?g"
    using h by (simp add: always_fails_def)
  have hb: "done_is_taken (fst (fst (ExampleRetry1_op 0 1000000000 (snd (user ?g))))) ?g"
    using h by (simp add: ExampleRetry1_op_def)
  have hc: "done_is_taken (fst (fst (two_values_op 0 1000000000 (snd (user ?g))))) ?g"
    using h by (simp add: two_values_op_def)
  have hd: "done_is_taken (fst (fst (three_values_op 0 1000000000 (snd (user ?g))))) ?g"
    using h by (simp add: three_values_op_def)
  show ?thesis
    using h ha hb hc hd
      Retry_cancelled_before_entry [of always_fails 1000000000 ?g ExampleRetry1_op
        two_values_op three_values_op Canceled 0 False 0 False 0 0]
    by (simp add: always_fails_def ExampleRetry1_op_def two_values_op_def three_values_op_def
        world0_def)
qed

text \<open>
  C1 as stated fails: with the context cancelled before the call, \<open>Retry0\<close> over
  \<open>Const\<close> of one second returns the error of the operation, not \<open>ctx.Err()\<close>.
\<close>

theorem Retry_cancelled_returns_reason_counterexample:
  "Retry0 (Cancelled Canceled) (Const 1000000000) (count_calls always_fails) (world0 (\<lambda>k. 0) (0, ())) =
     Some (Inr (Some (ErrorString ''this makes it retry''), (world0 (\<lambda>k. 0) (0, ()))\<lparr>user := (1, ())\<rparr>))
   \<and> Some (ErrorString ''this makes it retry'') \<noteq> ctx_Err (Cancelled Canceled)"
  by (simp add: Retry0_def Retry0_end_def Retry0_body.simps run_simps Const.simps always_fails_def)

text \<open>
  Why the proviso: the timer of \<open>time.After\<close> for one nanosecond has expired when the
  \<open>select\<close> polls, both cases are ready, and a runtime that takes the timer lets the loop
  go on although the context is cancelled. Here it does so once, and the operation is
  invoked twice.
\<close>

lemma Retry0_cancelled_short_pause_race:
  "Retry0 (Cancelled Canceled) (Const 1) (count_calls always_fails) (timer_wins_once (0, ())) =
     Some (Inr (Some (ErrorString ''this makes it retry''),
                (timer_wins_once (0, ()))\<lparr>slept := [1], user := (2, ())\<rparr>))"
  by (simp add: Retry0_def Retry0_end_def Retry0_body.simps run_simps Const.simps always_fails_def
      timer_wins_once_def)

section \<open>Jitter over Const\<close>

lemma Jitter_Const_panics:
  "d \<le> 0 \<Longrightarrow> Const d (Jitter_body y) l g = Some (Inl ''invalid argument to N'')"
  by (subst Const.simps) (simp add: Jitter_body_def rand_N_def)

lemma map_upt_Suc_shift: "map f [0..<Suc m] = f 0 # map (\<lambda>k. f (Suc k)) [0..<m]"
  by (simp add: upt_conv_Cons map_Suc_upt [symmetric] del: upt_Suc)

lemma Jitter_Const_collect:
  assumes "0 < d"
  shows "nat n = m \<Longrightarrow>
    drop_local (Const d (Jitter_body (Limit_body Collect_body)) (n, acc) g) =
      Some (Inr (acc @ map (\<lambda>k. int (rand_src g (rand_used g + k)) mod d) [0..<m],
                 g\<lparr>rand_used := Suc (rand_used g + m)\<rparr>))"
proof (induction m arbitrary: n acc g)
  case 0
  then have "n \<le> 0" by simp
  then show ?case
    using assms
    by (subst Const.simps) (simp add: Jitter_body_def rand_N_def drop_local_def)
next
  case (Suc m)
  then have pos: "\<not> n \<le> 0" and m: "nat (n - 1) = m" by simp_all
  let ?r = "int (rand_src g (rand_used g)) mod d"
  let ?g = "g\<lparr>rand_used := Suc (rand_used g)\<rparr>"
  have step: "Const d (Jitter_body (Limit_body Collect_body)) (n, acc) g
      = Const d (Jitter_body (Limit_body Collect_body)) (n - 1, acc @ [?r]) ?g"
    using pos assms
    by (subst Const.simps) (simp add: Jitter_body_def rand_N_def Collect_body_def)
  show ?case
    unfolding step using Suc.IH [OF m, of "acc @ [?r]" ?g]
    by (simp add: map_upt_Suc_shift del: upt_Suc)
qed

text \<open>
  C7. Every sample that \<open>Jitter(Const(d))\<close> yields lies in \<open>[0, d]\<close>, whatever the random
  source delivers: for a positive \<open>d\<close> and every \<open>n\<close> the first \<open>n\<close> samples are yielded,
  and every sample yielded is in the interval. (For \<open>d \<le> 0\<close> the first draw panics in
  \<open>rand.N\<close> and no sample is yielded.)
\<close>

theorem Jitter_Const_samples_in_range:
  "(0 < d \<longrightarrow> (\<exists>ys g'. Collect (Limit n (Jitter (Const d))) g = Some (Inr (ys, g'))
                        \<and> length ys = nat n))
   \<and> (\<forall>ys g' y. Collect (Limit n (Jitter (Const d))) g = Some (Inr (ys, g'))
                  \<longrightarrow> y \<in> set ys \<longrightarrow> 0 \<le> y \<and> y \<le> d)"
proof (cases "0 < d")
  case True
  have run: "Collect (Limit n (Jitter (Const d))) g =
      Some (Inr (map (\<lambda>k. int (rand_src g (rand_used g + k)) mod d) [0..<nat n],
                 g\<lparr>rand_used := Suc (rand_used g + nat n)\<rparr>))"
    using Jitter_Const_collect [OF True, of n "nat n" "[]" g]
    by (simp add: Collect_def Limit_def Jitter_def)
  have "0 \<le> y \<and> y \<le> d"
    if "Collect (Limit n (Jitter (Const d))) g = Some (Inr (ys, g'))" and "y \<in> set ys" for ys g' y
  proof -
    from that(1) run have "ys = map (\<lambda>k. int (rand_src g (rand_used g + k)) mod d) [0..<nat n]"
      by simp
    with that(2) obtain k where "y = int (rand_src g (rand_used g + k)) mod d"
      by auto
    moreover have "int (rand_src g (rand_used g + k)) mod d < d"
      using True by (rule pos_mod_bound)
    moreover have "0 \<le> int (rand_src g (rand_used g + k)) mod d"
      using True by (rule pos_mod_sign)
    ultimately show ?thesis by simp
  qed
  with run show ?thesis by simp
next
  case False
  then have "Collect (Limit n (Jitter (Const d))) g = Some (Inl ''invalid argument to N'')"
    by (simp add: Collect_def Limit_def Jitter_def Jitter_Const_panics drop_local_def)
  with False show ?thesis by simp
qed

theorem Jitter_Const_samples_in_range_witness:
  "(0::int) < 10
   \<and> Collect (Limit 3 (Jitter (Const 10))) (world0 (\<lambda>k. 7 * k + 13) ()) =
     Some (Inr ([3, 0, 7], (world0 (\<lambda>k. 7 * k + 13) ())\<lparr>rand_used := 4\<rparr>))
   \<and> (7::int) \<in> set [3, 0, 7] \<and> (0::int) \<le> 7 \<and> (7::int) \<le> 10"
proof -
  have run: "Collect (Limit 3 (Jitter (Const 10))) (world0 (\<lambda>k. 7 * k + 13) ()) =
     Some (Inr ([3, 0, 7], (world0 (\<lambda>k. 7 * k + 13) ())\<lparr>rand_used := 4\<rparr>))"
    by (simp add: Collect_def Limit_def Jitter_def Jitter_body_def rand_N_def Collect_body_def
        drop_local_def world0_def Const.simps)
  show ?thesis
    using run Jitter_Const_samples_in_range [of 10 3 "world0 (\<lambda>k. 7 * k + 13) ()"]
    by simp
qed

section \<open>The pairs of Backoff\<close>

lemma length_pairs_from: "length (pairs_from i zs) = length zs"
  by (induction zs arbitrary: i) simp_all

lemma pairs_from_snoc:
  "pairs_from i (zs @ [z]) = pairs_from i zs @ [(i + int (length zs), z)]"
  by (induction zs arbitrary: i) simp_all

text \<open>A loop over a finite sequence returns, unless its body panics.\<close>

lemma Backoff_from_returns:
  assumes "\<forall>i nw l g. \<exists>r. y i nw l g = Inr r"
  shows "\<exists>seen' l' g'. Backoff_from ctx (Values xs) (note_calls y) i (seen, l) g
           = Some (Inr ((seen', l'), g'))"
proof (induction xs arbitrary: i seen l g)
  case Nil
  from assms obtain c nw' l1 g1 where "y i SentinelDuration l g = Inr (c, nw', l1, g1)"
    by (metis prod_cases4)
  then show ?case
    by (subst Backoff_from_Nil) simp
next
  case (Cons x xs)
  from assms obtain c nw' l1 g1 where r: "y i x l g = Inr (c, nw', l1, g1)"
    by (metis prod_cases4)
  show ?case
  proof (cases "c \<and> \<not> nw' < 0 \<and> fst (select_wait ctx nw' g1) = TimerFired")
    case True
    then have "Backoff_from ctx (Values (x # xs)) (note_calls y) i (seen, l) g
        = Backoff_from ctx (Values xs) (note_calls y) (i + 1) (seen @ [(i, x, c, nw')], l1)
            (snd (select_wait ctx nw' g1))"
      using r by (subst Backoff_from_Cons) (auto split: prod.splits select_case.splits)
    with Cons.IH [of "i + 1" "seen @ [(i, x, c, nw')]" l1 "snd (select_wait ctx nw' g1)"]
    show ?thesis by simp
  next
    case False
    then show ?thesis
      using r by (subst Backoff_from_Cons) (auto split: prod.splits select_case.splits)
  qed
qed

text \<open>
  What the iterations of a loop are given, and where the loop stops: the entries noted are
  the first ones of the sequence followed by the sentinel; and with a live context either
  the sentinel has been handed out or the last iteration was one that ends the loop.
\<close>

lemma Backoff_from_pairs:
  assumes "Backoff_from ctx (Values xs) (note_calls y) i (seen, l) g = Some (Inr ((seen', l'), g'))"
  shows "\<exists>new. seen' = seen @ new \<and> new \<noteq> [] \<and> length new \<le> Suc (length xs)
           \<and> map given new = take (length new) (pairs_from i (xs @ [SentinelDuration]))
           \<and> (ctx = Background \<longrightarrow> length new \<le> length xs \<longrightarrow> \<not> went_on (last new))"
  using assms
proof (induction xs arbitrary: i seen l g)
  case Nil
  then obtain c nw' where "seen' = seen @ [(i, SentinelDuration, c, nw')]"
    by (subst (asm) Backoff_from_Nil) (auto split: sum.splits if_splits)
  then show ?case by (intro exI [of _ "[(i, SentinelDuration, c, nw')]"]) simp
next
  case (Cons x xs)
  show ?case
  proof (cases "y i x l g")
    case (Inl p)
    with Cons.prems show ?thesis
      by (subst (asm) Backoff_from_Cons) simp
  next
    case (Inr r)
    obtain c nw' l1 g1 where r: "r = (c, nw', l1, g1)" by (cases r)
    show ?thesis
    proof (cases "c \<and> \<not> nw' < 0 \<and> fst (select_wait ctx nw' g1) = TimerFired")
      case True
      then have "Backoff_from ctx (Values (x # xs)) (note_calls y) i (seen, l) g
          = Backoff_from ctx (Values xs) (note_calls y) (i + 1) (seen @ [(i, x, c, nw')], l1)
              (snd (select_wait ctx nw' g1))"
        using Inr r
        by (subst Backoff_from_Cons) (auto split: prod.splits select_case.splits)
      with Cons.prems Cons.IH [of "i + 1" "seen @ [(i, x, c, nw')]" l1 "snd (select_wait ctx nw' g1)"]
      obtain new where new: "seen' = (seen @ [(i, x, c, nw')]) @ new" "new \<noteq> []"
          "length new \<le> Suc (length xs)"
          "map given new = take (length new) (pairs_from (i + 1) (xs @ [SentinelDuration]))"
          "ctx = Background \<longrightarrow> length new \<le> length xs \<longrightarrow> \<not> went_on (last new)"
        by auto
      show ?thesis
        using new by (intro exI [of _ "(i, x, c, nw') # new"]) simp
    next
      case False
      then have seen': "seen' = seen @ [(i, x, c, nw')]"
        using Cons.prems Inr r
        by (subst (asm) Backoff_from_Cons)
           (auto split: prod.splits select_case.splits if_splits)
      have "\<not> went_on (i, x, c, nw')" if "ctx = Background"
        using False that by (auto simp: select_wait_Background)
      with seen' show ?thesis
        by (intro exI [of _ "[(i, x, c, nw')]"]) simp
    qed
  qed
qed

text \<open>
  C9. \<open>SentinelDuration\<close> is \<open>-1\<close> nanosecond. For every loop body and every context, a
  loop over \<open>Backoff\<close> of a finite sequence \<open>xs\<close> returns unless the body panics, and the
  pairs its iterations are given are the first ones of: the elements of \<open>xs\<close> in order,
  then \<open>SentinelDuration\<close>, with the indices \<open>0, 1, \<dots>\<close>. So the only duration handed
  out that does not come from the sequence is \<open>SentinelDuration\<close>, in the iteration of
  index \<open>|xs|\<close>. With a live context that iteration takes place whenever the sequence is
  exhausted, that is, whenever every iteration over an element of \<open>xs\<close> went on (its body
  did not stop and left a duration that is not negative): the loop is then given
  \<open>|xs| + 1\<close> pairs, and the last holds exactly \<open>SentinelDuration\<close>.
\<close>

theorem Backoff_last_pair_is_SentinelDuration:
  "SentinelDuration = - 1
   \<and> ((\<forall>i nw l g. \<exists>r. y i nw l g = Inr r) \<longrightarrow>
        (\<exists>seen l' g'. Backoff ctx (Values xs) (note_calls y) ([], l) g = Some (Inr ((seen, l'), g'))))
   \<and> (\<forall>seen l' g'. Backoff ctx (Values xs) (note_calls y) ([], l) g = Some (Inr ((seen, l'), g')) \<longrightarrow>
          seen \<noteq> [] \<and> length seen \<le> Suc (length xs)
        \<and> map given seen = take (length seen) (pairs_from 0 (xs @ [SentinelDuration]))
        \<and> (length seen = Suc (length xs) \<longrightarrow> given (last seen) = (int (length xs), SentinelDuration))
        \<and> (ctx = Background \<longrightarrow> list_all went_on (take (length xs) seen) \<longrightarrow>
              length seen = Suc (length xs)
            \<and> given (last seen) = (int (length xs), SentinelDuration)))"
proof (intro conjI allI impI)
  show "SentinelDuration = - 1" by (simp add: SentinelDuration_def)
next
  assume "\<forall>i nw l g. \<exists>r. y i nw l g = Inr r"
  from Backoff_from_returns [OF this, of ctx xs 0 "[]" l g]
  show "\<exists>seen l' g'. Backoff ctx (Values xs) (note_calls y) ([], l) g = Some (Inr ((seen, l'), g'))"
    by (simp add: Backoff_from_0)
next
  fix seen l' g'
  assume run: "Backoff ctx (Values xs) (note_calls y) ([], l) g = Some (Inr ((seen, l'), g'))"
  from run Backoff_from_pairs [of ctx xs y 0 "[]" l g seen l' g']
  have ne: "seen \<noteq> []" and len: "length seen \<le> Suc (length xs)"
    and pre: "map given seen = take (length seen) (pairs_from 0 (xs @ [SentinelDuration]))"
    and stop: "ctx = Background \<longrightarrow> length seen \<le> length xs \<longrightarrow> \<not> went_on (last seen)"
    by (auto simp: Backoff_from_0)
  show "seen \<noteq> []" by (rule ne)
  show "length seen \<le> Suc (length xs)" by (rule len)
  show "map given seen = take (length seen) (pairs_from 0 (xs @ [SentinelDuration]))" by (rule pre)
  have full: "given (last seen) = (int (length xs), SentinelDuration)"
    if "length seen = Suc (length xs)"
  proof -
    from that pre have "map given seen = pairs_from 0 xs @ [(int (length xs), SentinelDuration)]"
      by (simp add: pairs_from_snoc length_pairs_from)
    then have "last (map given seen) = (int (length xs), SentinelDuration)" by simp
    with ne show ?thesis by (simp add: last_map)
  qed
  show "given (last seen) = (int (length xs), SentinelDuration)" if "length seen = Suc (length xs)"
    using that by (rule full)
  have all: "length seen = Suc (length xs)"
    if "ctx = Background" and "list_all went_on (take (length xs) seen)"
  proof (rule ccontr)
    assume "length seen \<noteq> Suc (length xs)"
    with len have short: "length seen \<le> length xs" by simp
    with stop that(1) have "\<not> went_on (last seen)" by simp
    moreover from short that(2) have "list_all went_on seen" by simp
    with ne have "went_on (last seen)" by (simp add: list_all_iff)
    ultimately show False by simp
  qed
  show "length seen = Suc (length xs)"
    if "ctx = Background" and "list_all went_on (take (length xs) seen)"
    using that by (rule all)
  show "given (last seen) = (int (length xs), SentinelDuration)"
    if "ctx = Background" and "list_all went_on (take (length xs) seen)"
    using that all full by simp
qed

theorem Backoff_last_pair_is_SentinelDuration_witness:
  "Backoff Background (Values example_pauses) (note_calls keep_going) ([], ()) (world0 (\<lambda>k. 0) ()) =
     Some (Inr (([(0, 1000000, True, 1000000), (1, 1100000, True, 1100000), (2, 1210000, True, 1210000),
                  (3, 1331000, True, 1331000), (4, 1464100, True, 1464100), (5, - 1, True, - 1)], ()),
                (world0 (\<lambda>k. 0) ())\<lparr>slept := [1000000, 1100000, 1210000, 1331000, 1464100]\<rparr>))
   \<and> list_all went_on [(0, 1000000, True, 1000000), (1, 1100000, True, 1100000),
        (2, 1210000, True, 1210000), (3, 1331000, True, 1331000), (4, 1464100, True, 1464100)]
   \<and> given (5, - 1, True, - 1) = (int (length example_pauses), SentinelDuration)"
proof -
  have run: "Backoff Background (Values example_pauses) (note_calls keep_going) ([], ()) (world0 (\<lambda>k. 0) ()) =
     Some (Inr (([(0, 1000000, True, 1000000), (1, 1100000, True, 1100000), (2, 1210000, True, 1210000),
                  (3, 1331000, True, 1331000), (4, 1464100, True, 1464100), (5, - 1, True, - 1)], ()),
                (world0 (\<lambda>k. 0) ())\<lparr>slept := [1000000, 1100000, 1210000, 1331000, 1464100]\<rparr>))"
    by (simp add: run_simps example_pauses_def keep_going_def)
  show ?thesis
    using run Backoff_last_pair_is_SentinelDuration [of keep_going Background example_pauses "()"
        "world0 (\<lambda>k. 0) ()"]
    by (simp add: example_pauses_def)
qed

text \<open>
  \<open>ExampleBackoff_override\<close>: the override of iteration 3 is the fourth wait, and the
  pairs of the iterations after it are those of the sequence.
\<close>

lemma ExampleBackoff_override:
  "Backoff Background (Values example_pauses) (note_calls override_in_iteration_3) ([], ())
       (world0 (\<lambda>k. 0) ()) =
     Some (Inr (([(0, 1000000, True, 1000000), (1, 1100000, True, 1100000), (2, 1210000, True, 1210000),
                  (3, 1331000, True, 100000000), (4, 1464100, True, 1464100), (5, - 1, True, - 1)], ()),
                (world0 (\<lambda>k. 0) ())\<lparr>slept := [1000000, 1100000, 1210000, 100000000, 1464100]\<rparr>))"
  by (simp add: run_simps example_pauses_def override_in_iteration_3_def)

section \<open>Limit with a limit that is not positive\<close>

text \<open>
  C10. With \<open>n \<le> 0\<close>, \<open>Limit(n, seq)\<close> over a sequence that is not empty (a finite one
  with a first element, or \<open>Const\<close>) yields nothing, and the sequence has handed out
  exactly one element: the test \<open>n <= 0\<close> is inside the loop over \<open>seq\<close>.
\<close>

theorem Limit_nonpositive_pulls_once:
  assumes "n \<le> 0"
  shows "Collect (Limit n (count_pulls (Values (x # xs)))) g = Some (Inr ([], g\<lparr>user := Suc (user g)\<rparr>))
       \<and> Collect (Limit n (count_pulls (Const d))) g = Some (Inr ([], g\<lparr>user := Suc (user g)\<rparr>))"
proof
  show "Collect (Limit n (count_pulls (Values (x # xs)))) g = Some (Inr ([], g\<lparr>user := Suc (user g)\<rparr>))"
    using assms
    by (simp add: Collect_def Limit_def count_pulls_def count_pulls_body_def Values.simps drop_local_def)
  show "Collect (Limit n (count_pulls (Const d))) g = Some (Inr ([], g\<lparr>user := Suc (user g)\<rparr>))"
    unfolding Collect_def Limit_def count_pulls_def using assms
    by (subst Const.simps) (simp add: count_pulls_body_def drop_local_def)
qed

theorem Limit_nonpositive_pulls_once_witness:
  "(0::int) \<le> 0
   \<and> Collect (Limit 0 (count_pulls (Values [1, 2, 3]))) (world0 (\<lambda>k. 0) 0) =
       Some (Inr ([], (world0 (\<lambda>k. 0) 0)\<lparr>user := 1\<rparr>))
   \<and> Collect (Limit 0 (count_pulls (Const 7))) (world0 (\<lambda>k. 0) 0) =
       Some (Inr ([], (world0 (\<lambda>k. 0) 0)\<lparr>user := 1\<rparr>))"
proof -
  have h: "(0::int) \<le> 0" by simp
  show ?thesis
    using Limit_nonpositive_pulls_once [OF h, of 1 "[2, 3]" "world0 (\<lambda>k. 0) 0" 7]
    by (simp add: world0_def)
qed

section \<open>Retry1 over the forever sequence\<close>

text \<open>
  While the loop has not ended, \<open>Const d\<close> behaves as a finite sequence of copies of \<open>d\<close>
  that is long enough. So what holds of the run that ends with the invocation of index
  \<open>k\<close> over a finite sequence (success, an unrecoverable error, or a negative duration
  behind the pointer) holds over \<open>Const d\<close> as well.
\<close>

lemma Retry1_Const_as_Values:
  assumes "\<forall>j<k. goes_on (attempts f i (replicate (Suc k) d) (user g) ! j)"
    and "\<not> goes_on (attempts f i (replicate (Suc k) d) (user g) ! k)"
  shows "Backoff_from Background (Const d) (Retry1_body f) i (None, t, err) g =
         Backoff_from Background (Values (replicate (Suc k) d)) (Retry1_body f) i (None, t, err) g"
  using assms
proof (induction k arbitrary: i t err g)
  case 0
  then have "\<not> goes_on (f i d (user g))" by simp
  then have l: "Backoff_from Background (Const d) (Retry1_body f) i (None, t, err) g =
      (if transient (error_of (f i d (user g)))
       then Some (Inr ((None, value_of (f i d (user g)), error_of (f i d (user g))),
                       g\<lparr>user := state_of (f i d (user g))\<rparr>))
       else Some (Inr ((Some (value_of (f i d (user g)), error_of (f i d (user g))),
                        value_of (f i d (user g)), error_of (f i d (user g))),
                       g\<lparr>user := state_of (f i d (user g))\<rparr>)))"
    by (subst Backoff_from_Const) (simp add: Retry1_body_eq goes_on_def split: if_splits)
  from \<open>\<not> goes_on (f i d (user g))\<close>
  have r: "Backoff_from Background (Values (d # [])) (Retry1_body f) i (None, t, err) g =
      (if transient (error_of (f i d (user g)))
       then Some (Inr ((None, value_of (f i d (user g)), error_of (f i d (user g))),
                       g\<lparr>user := state_of (f i d (user g))\<rparr>))
       else Some (Inr ((Some (value_of (f i d (user g)), error_of (f i d (user g))),
                        value_of (f i d (user g)), error_of (f i d (user g))),
                       g\<lparr>user := state_of (f i d (user g))\<rparr>)))"
    by (subst Backoff_from_Cons) (simp add: Retry1_body_eq goes_on_def split: if_splits)
  show ?case unfolding l using r by simp
next
  case (Suc k)
  let ?r = "f i d (user g)"
  let ?g = "g\<lparr>user := state_of ?r, slept := slept g @ [handle_of ?r]\<rparr>"
  from Suc.prems(1) have first: "goes_on ?r"
    by (auto dest: spec [of _ 0])
  have ug: "user ?g = snd ?r" by (simp add: state_of_def)
  have rest: "\<forall>j<k. goes_on (attempts f (i + 1) (replicate (Suc k) d) (user ?g) ! j)"
    using Suc.prems(1) unfolding ug by (auto dest: spec [of _ "Suc j" for j])
  have last: "\<not> goes_on (attempts f (i + 1) (replicate (Suc k) d) (user ?g) ! k)"
    using Suc.prems(2) unfolding ug by simp
  have l: "Backoff_from Background (Const d) (Retry1_body f) i (None, t, err) g =
      Backoff_from Background (Const d) (Retry1_body f) (i + 1) (None, value_of ?r, error_of ?r) ?g"
    using first
    by (subst Backoff_from_Const)
       (simp add: Retry1_body_eq goes_on_def select_wait_Background split: if_splits)
  have r: "Backoff_from Background (Values (replicate (Suc (Suc k)) d)) (Retry1_body f) i (None, t, err) g =
      Backoff_from Background (Values (replicate (Suc k) d)) (Retry1_body f) (i + 1)
        (None, value_of ?r, error_of ?r) ?g"
    using first Retry1_loop_step [of f i d g "replicate (Suc k) d" t err] by simp
  show ?case
    unfolding l r by (rule Suc.IH [OF rest last])
qed

lemma attempts_append_nth:
  "j < length nws \<Longrightarrow> attempts f i (nws @ zs) s ! j = attempts f i nws s ! j"
proof (induction nws arbitrary: i s j)
  case Nil
  then show ?case by simp
next
  case (Cons nw nws)
  then show ?case by (cases j) simp_all
qed

lemma Retry1_forever_ends_at:
  fixes g :: "(nat \<times> 's) world"
  assumes "\<forall>j<k. goes_on (attempts f 0 (replicate (Suc k) d) (snd (user g)) ! j)"
    and "\<not> goes_on (attempts f 0 (replicate (Suc k) d) (snd (user g)) ! k)"
  shows "Retry1 Background (Const d) (count_calls f) t0 g =
           Some (Inr ((value_of (attempts f 0 (replicate (Suc k) d) (snd (user g)) ! k),
                       error_of (attempts f 0 (replicate (Suc k) d) (snd (user g)) ! k)),
                      g\<lparr>slept := slept g @ map handle_of
                              (take k (attempts f 0 (replicate (Suc k) d) (snd (user g)))),
                        user := (fst (user g) + Suc k,
                                 state_of (attempts f 0 (replicate (Suc k) d) (snd (user g)) ! k))\<rparr>))"
proof -
  obtain n s where ug: "user g = (n, s)" by (cases "user g")
  let ?xs = "replicate (Suc k) d"
  have same: "calls_of f ?xs s ! j = attempts f 0 ?xs s ! j" if "j \<le> k" for j
    using that by (simp add: calls_of_def attempts_append_nth del: replicate.simps)
  have before: "\<forall>j<k. goes_on (calls_of f ?xs (snd (user g)) ! j)"
    using assms(1) same by (simp add: ug del: replicate.simps)
  have last: "\<not> goes_on (calls_of f ?xs (snd (user g)) ! k)"
    using assms(2) same by (simp add: ug del: replicate.simps)
  have k: "k \<le> length ?xs" by simp
  have waits: "map handle_of (take k (calls_of f ?xs s)) = map handle_of (take k (attempts f 0 ?xs s))"
  proof (rule nth_equalityI)
    show "length (map handle_of (take k (calls_of f ?xs s)))
        = length (map handle_of (take k (attempts f 0 ?xs s)))"
      by (simp add: calls_of_def length_attempts del: replicate.simps)
  next
    fix j assume "j < length (map handle_of (take k (calls_of f ?xs s)))"
    then have "j < k" by (simp add: calls_of_def length_attempts del: replicate.simps)
    then show "map handle_of (take k (calls_of f ?xs s)) ! j
        = map handle_of (take k (attempts f 0 ?xs s)) ! j"
      using same [of j] by (simp add: calls_of_def length_attempts del: replicate.simps)
  qed
  have cbefore: "\<forall>j<k. goes_on (attempts (count_calls f) 0 ?xs (user g) ! j)"
    using assms(1) by (simp add: ug counted_outcome del: replicate.simps)
  have clast: "\<not> goes_on (attempts (count_calls f) 0 ?xs (user g) ! k)"
    using assms(2) by (simp add: ug counted_outcome del: replicate.simps)
  have "Retry1 Background (Const d) (count_calls f) t0 g
      = Retry1 Background (Values ?xs) (count_calls f) t0 g"
    unfolding Retry1_as_loop
    using Retry1_Const_as_Values [of k "count_calls f" 0 d g t0 None] cbefore clast
    by simp
  then show ?thesis
    using Retry1_ends_at [OF k before last, of t0] same [of k] waits
    by (simp add: ug del: replicate.simps)
qed

lemma Retry1_forever_example:
  "Retry1 Background (Const 1000000) (count_calls ExampleRetry1_op) 0 (world0 (\<lambda>k. 0) (0, ())) =
     Some (Inr ((42, None),
                (world0 (\<lambda>k. 0) (0, ()))\<lparr>slept := [1000000, 1000000, 1000000], user := (4, ())\<rparr>))"
proof -
  let ?g = "world0 (\<lambda>k. 0) (0 :: nat, ())"
  have cs: "attempts ExampleRetry1_op 0 (replicate (Suc 3) 1000000) (snd (user ?g)) =
      [((1000000, - 1, Some (ErrorString ''spurious error'')), ()),
       ((1000000, - 1, Some (ErrorString ''spurious error'')), ()),
       ((1000000, - 1, Some (ErrorString ''spurious error'')), ()),
       ((1000000, 42, None), ())]"
    by (simp add: ExampleRetry1_op_def numeral_3_eq_3)
  have h1: "\<forall>j<3. goes_on (attempts ExampleRetry1_op 0 (replicate (Suc 3) 1000000) (snd (user ?g)) ! j)"
    unfolding cs
    by (simp add: less_Suc_eq numeral_3_eq_3 goes_on_def transient_def error_of_def handle_of_def
        all_conj_distrib)
  have h2: "\<not> goes_on (attempts ExampleRetry1_op 0 (replicate (Suc 3) 1000000) (snd (user ?g)) ! 3)"
    unfolding cs by (simp add: goes_on_def transient_def error_of_def)
  show ?thesis
    using Retry1_forever_ends_at [OF h1 h2, of 0]
    unfolding cs
    by (simp add: value_of_def error_of_def handle_of_def state_of_def world0_def)
qed

section \<open>A negative duration behind the pointer, in all four drivers\<close>

text \<open>
  The loop bodies of the four drivers have one shape: after a transient error the body
  goes on, with the result of the invocation in its locals (\<open>go\<close>); otherwise it returns
  the result (\<open>stop\<close>). \<open>fin\<close> is what the driver returns from the locals at the end, and
  \<open>fresh\<close> says that no value has been returned from inside the loop yet.
\<close>

lemma driver_loop:
  fixes f :: "int \<Rightarrow> duration \<Rightarrow> 's \<Rightarrow> (duration \<times> 'v) \<times> 's"
  assumes body: "\<And>i nw L g. fresh L \<Longrightarrow> y i nw L g =
      (if transient (err (snd (fst (f i nw (user g)))))
       then Inr (True, fst (fst (f i nw (user g))), go L (snd (fst (f i nw (user g)))),
                 g\<lparr>user := snd (f i nw (user g))\<rparr>)
       else Inr (False, fst (fst (f i nw (user g))), stop (snd (fst (f i nw (user g)))),
                 g\<lparr>user := snd (f i nw (user g))\<rparr>))"
    and go: "\<And>L v. fresh L \<Longrightarrow> fresh (go L v) \<and> fin (go L v) = v"
    and stop: "\<And>v. fin (stop v) = v"
  shows "fresh L \<Longrightarrow> k \<le> length xs \<Longrightarrow>
    \<forall>j<k. goes_on_by err (attempts f i (xs @ [SentinelDuration]) (user g) ! j) \<Longrightarrow>
    \<not> goes_on_by err (attempts f i (xs @ [SentinelDuration]) (user g) ! k) \<Longrightarrow>
    \<exists>L'. Backoff_from Background (Values xs) y i L g =
            Some (Inr (L', g\<lparr>slept := slept g @ map (\<lambda>r. fst (fst r))
                                 (take k (attempts f i (xs @ [SentinelDuration]) (user g))),
                            user := snd (attempts f i (xs @ [SentinelDuration]) (user g) ! k)\<rparr>))
        \<and> fin L' = snd (fst (attempts f i (xs @ [SentinelDuration]) (user g) ! k))"
proof (induction xs arbitrary: i L g k)
  case Nil
  let ?r = "f i SentinelDuration (user g)"
  from Nil have k: "k = 0" and st: "\<not> goes_on_by err ?r" by simp_all
  show ?case
  proof (cases "transient (err (snd (fst ?r)))")
    case True
    with st have "fst (fst ?r) < 0" by (simp add: goes_on_by_def)
    with True go [OF Nil.prems(1), of "snd (fst ?r)"] show ?thesis
      by (subst Backoff_from_Nil) (simp add: k body [OF Nil.prems(1)])
  next
    case False
    with stop [of "snd (fst ?r)"] show ?thesis
      by (subst Backoff_from_Nil) (simp add: k body [OF Nil.prems(1)])
  qed
next
  case (Cons x xs)
  let ?r = "f i x (user g)"
  show ?case
  proof (cases k)
    case 0
    with Cons.prems(4) have st: "\<not> goes_on_by err ?r" by simp
    show ?thesis
    proof (cases "transient (err (snd (fst ?r)))")
      case True
      with st have "fst (fst ?r) < 0" by (simp add: goes_on_by_def)
      with True go [OF Cons.prems(1), of "snd (fst ?r)"] show ?thesis
        by (subst Backoff_from_Cons) (simp add: 0 body [OF Cons.prems(1)])
    next
      case False
      with stop [of "snd (fst ?r)"] show ?thesis
        by (subst Backoff_from_Cons) (simp add: 0 body [OF Cons.prems(1)])
    qed
  next
    case (Suc k')
    from Cons.prems(3) have first: "goes_on_by err ?r"
      by (auto simp: Suc dest: spec [of _ 0])
    then have tr: "transient (err (snd (fst ?r)))" and h: "0 \<le> fst (fst ?r)"
      by (simp_all add: goes_on_by_def split: if_splits)
    let ?L = "go L (snd (fst ?r))"
    let ?g = "g\<lparr>user := snd ?r, slept := slept g @ [fst (fst ?r)]\<rparr>"
    have inv': "fresh ?L" using go [OF Cons.prems(1)] by simp
    have ug: "user ?g = snd (f i x (user g))" by simp
    have step: "Backoff_from Background (Values (x # xs)) y i L g
        = Backoff_from Background (Values xs) y (i + 1) ?L ?g"
      using tr h
      by (subst Backoff_from_Cons) (simp add: body [OF Cons.prems(1)] select_wait_Background)
    have k': "k' \<le> length xs" using Cons.prems(2) Suc by simp
    have rest: "\<forall>j<k'. goes_on_by err (attempts f (i + 1) (xs @ [SentinelDuration]) (user ?g) ! j)"
      using Cons.prems(3) unfolding Suc ug by (auto dest: spec [of _ "Suc j" for j])
    have last: "\<not> goes_on_by err (attempts f (i + 1) (xs @ [SentinelDuration]) (user ?g) ! k')"
      using Cons.prems(4) unfolding Suc ug by simp
    from Cons.IH [OF inv' k' rest last]
    show ?thesis unfolding step by (simp add: Suc ug)
  qed
qed

lemma counted_driver_loop:
  fixes f :: "int \<Rightarrow> duration \<Rightarrow> 's \<Rightarrow> (duration \<times> 'v) \<times> 's" and g :: "(nat \<times> 's) world"
  assumes body: "\<And>i nw L (g :: (nat \<times> 's) world). fresh L \<Longrightarrow> y i nw L g =
      (if transient (err (snd (fst (count_calls f i nw (user g)))))
       then Inr (True, fst (fst (count_calls f i nw (user g))),
                 go L (snd (fst (count_calls f i nw (user g)))),
                 g\<lparr>user := snd (count_calls f i nw (user g))\<rparr>)
       else Inr (False, fst (fst (count_calls f i nw (user g))),
                 stop (snd (fst (count_calls f i nw (user g)))),
                 g\<lparr>user := snd (count_calls f i nw (user g))\<rparr>))"
    and go: "\<And>L v. fresh L \<Longrightarrow> fresh (go L v) \<and> fin (go L v) = v"
    and stop: "\<And>v. fin (stop v) = v"
    and fresh: "fresh L"
    and k: "k \<le> length xs"
    and before: "\<forall>j<k. goes_on_by err (calls_of f xs (snd (user g)) ! j)"
    and last: "\<not> goes_on_by err (calls_of f xs (snd (user g)) ! k)"
  shows "\<exists>L'. Backoff_from Background (Values xs) y 0 L g =
            Some (Inr (L', g\<lparr>slept := slept g @ map (\<lambda>r. fst (fst r))
                                 (take k (calls_of f xs (snd (user g)))),
                            user := (fst (user g) + Suc k, snd (calls_of f xs (snd (user g)) ! k))\<rparr>))
        \<and> fin L' = snd (fst (calls_of f xs (snd (user g)) ! k))"
proof -
  obtain n s where ug: "user g = (n, s)" by (cases "user g")
  let ?as = "calls_of f xs s"
  let ?cs = "attempts (count_calls f) 0 (xs @ [SentinelDuration]) (user g)"
  have len: "length ?cs = Suc (length xs)" "length ?as = Suc (length xs)"
    by (simp_all add: length_attempts calls_of_def)
  have nth: "?cs ! j = (fst (?as ! j), (n + Suc j, snd (?as ! j)))" if "j \<le> length xs" for j
    unfolding calls_of_def ug using that by (simp add: nth_attempts_count_calls)
  have same: "goes_on_by err (?cs ! j) = goes_on_by err (?as ! j)" if "j \<le> length xs" for j
    using nth [OF that] by (simp add: goes_on_by_def)
  have cbefore: "\<forall>j<k. goes_on_by err (?cs ! j)"
  proof (intro allI impI)
    fix j assume "j < k"
    with k before same [of j] show "goes_on_by err (?cs ! j)" by (simp add: ug)
  qed
  have clast: "\<not> goes_on_by err (?cs ! k)"
    using last same [OF k] by (simp add: ug)
  have waits: "map (\<lambda>r. fst (fst r)) (take k ?cs) = map (\<lambda>r. fst (fst r)) (take k ?as)"
  proof (rule nth_equalityI)
    show "length (map (\<lambda>r. fst (fst r)) (take k ?cs)) = length (map (\<lambda>r. fst (fst r)) (take k ?as))"
      using len by simp
  next
    fix j assume "j < length (map (\<lambda>r. fst (fst r)) (take k ?cs))"
    then have "j < k" "j \<le> length xs" using k len by simp_all
    then show "map (\<lambda>r. fst (fst r)) (take k ?cs) ! j = map (\<lambda>r. fst (fst r)) (take k ?as) ! j"
      using k len nth [of j] by simp
  qed
  from driver_loop [where fresh = fresh and y = y and err = err and f = "count_calls f"
      and go = go and fin = fin and stop = stop and L = L and k = k and xs = xs and i = 0 and g = g,
      OF body go stop fresh k cbefore clast]
  show ?thesis
    unfolding waits using nth [OF k] by (simp add: ug)
qed

lemma Retry0_ends_at:
  fixes g :: "(nat \<times> 's) world"
  assumes "k \<le> length xs"
    and "\<forall>j<k. goes_on_by (\<lambda>e. e) (calls_of f xs (snd (user g)) ! j)"
    and "\<not> goes_on_by (\<lambda>e. e) (calls_of f xs (snd (user g)) ! k)"
  shows "Retry0 Background (Values xs) (count_calls f) g =
           Some (Inr (snd (fst (calls_of f xs (snd (user g)) ! k)),
                      g\<lparr>slept := slept g @ map (\<lambda>r. fst (fst r)) (take k (calls_of f xs (snd (user g)))),
                        user := (fst (user g) + Suc k, snd (calls_of f xs (snd (user g)) ! k))\<rparr>))"
proof -
  have body: "Retry0_body (count_calls f) i nw L g =
      (if transient (snd (fst (count_calls f i nw (user g))))
       then Inr (True, fst (fst (count_calls f i nw (user g))),
                 (fst L, snd (fst (count_calls f i nw (user g)))),
                 g\<lparr>user := snd (count_calls f i nw (user g))\<rparr>)
       else Inr (False, fst (fst (count_calls f i nw (user g))),
                 (Some (snd (fst (count_calls f i nw (user g)))), snd (fst (count_calls f i nw (user g)))),
                 g\<lparr>user := snd (count_calls f i nw (user g))\<rparr>))"
    for i nw L and g :: "(nat \<times> 's) world"
    by (cases L) (auto simp: Retry0_body.simps transient_def split: prod.splits)
  have "\<exists>L'. Backoff_from Background (Values xs) (Retry0_body (count_calls f)) 0 (None, None) g =
            Some (Inr (L', g\<lparr>slept := slept g @ map (\<lambda>r. fst (fst r))
                                 (take k (calls_of f xs (snd (user g)))),
                            user := (fst (user g) + Suc k, snd (calls_of f xs (snd (user g)) ! k))\<rparr>))
        \<and> (case fst L' of Some r \<Rightarrow> r | None \<Rightarrow> snd L') = snd (fst (calls_of f xs (snd (user g)) ! k))"
    by (rule counted_driver_loop [where fresh = "\<lambda>L. fst L = None" and go = "\<lambda>L v. (fst L, v)"
          and stop = "\<lambda>v. (Some v, v)" and err = "\<lambda>e. e"
          and fin = "\<lambda>L. case fst L of Some r \<Rightarrow> r | None \<Rightarrow> snd L"])
       (simp_all add: body assms)
  then show ?thesis
    by (auto simp: Retry0_as_loop Retry0_end_def split: prod.splits option.splits)
qed

lemma Retry2_ends_at:
  fixes g :: "(nat \<times> 's) world"
  assumes "k \<le> length xs"
    and "\<forall>j<k. goes_on_by (\<lambda>v. snd (snd v)) (calls_of f xs (snd (user g)) ! j)"
    and "\<not> goes_on_by (\<lambda>v. snd (snd v)) (calls_of f xs (snd (user g)) ! k)"
  shows "Retry2 Background (Values xs) (count_calls f) ua ub g =
           Some (Inr (snd (fst (calls_of f xs (snd (user g)) ! k)),
                      g\<lparr>slept := slept g @ map (\<lambda>r. fst (fst r)) (take k (calls_of f xs (snd (user g)))),
                        user := (fst (user g) + Suc k, snd (calls_of f xs (snd (user g)) ! k))\<rparr>))"
proof -
  have body: "Retry2_body (count_calls f) i nw L g =
      (if transient (snd (snd (snd (fst (count_calls f i nw (user g))))))
       then Inr (True, fst (fst (count_calls f i nw (user g))),
                 (fst L, snd (fst (count_calls f i nw (user g)))),
                 g\<lparr>user := snd (count_calls f i nw (user g))\<rparr>)
       else Inr (False, fst (fst (count_calls f i nw (user g))),
                 (Some (snd (fst (count_calls f i nw (user g)))), snd (fst (count_calls f i nw (user g)))),
                 g\<lparr>user := snd (count_calls f i nw (user g))\<rparr>))"
    for i nw L and g :: "(nat \<times> 's) world"
    by (cases L) (auto simp: transient_def split: prod.splits)
  have "\<exists>L'. Backoff_from Background (Values xs) (Retry2_body (count_calls f)) 0 (None, ua, ub, None) g =
            Some (Inr (L', g\<lparr>slept := slept g @ map (\<lambda>r. fst (fst r))
                                 (take k (calls_of f xs (snd (user g)))),
                            user := (fst (user g) + Suc k, snd (calls_of f xs (snd (user g)) ! k))\<rparr>))
        \<and> (case fst L' of Some r \<Rightarrow> r | None \<Rightarrow> snd L') = snd (fst (calls_of f xs (snd (user g)) ! k))"
    by (rule counted_driver_loop [where fresh = "\<lambda>L. fst L = None" and go = "\<lambda>L v. (fst L, v)"
          and stop = "\<lambda>v. (Some v, v)" and err = "\<lambda>v. snd (snd v)"
          and fin = "\<lambda>L. case fst L of Some r \<Rightarrow> r | None \<Rightarrow> snd L"])
       (simp_all add: body assms)
  then show ?thesis
    by (auto simp: Retry2_def Backoff_from_0 Retry2_end_def split: prod.splits option.splits)
qed

lemma Retry3_ends_at:
  fixes g :: "(nat \<times> 's) world"
  assumes "k \<le> length xs"
    and "\<forall>j<k. goes_on_by (\<lambda>v. snd (snd (snd v))) (calls_of f xs (snd (user g)) ! j)"
    and "\<not> goes_on_by (\<lambda>v. snd (snd (snd v))) (calls_of f xs (snd (user g)) ! k)"
  shows "Retry3 Background (Values xs) (count_calls f) va vb vc g =
           Some (Inr (snd (fst (calls_of f xs (snd (user g)) ! k)),
                      g\<lparr>slept := slept g @ map (\<lambda>r. fst (fst r)) (take k (calls_of f xs (snd (user g)))),
                        user := (fst (user g) + Suc k, snd (calls_of f xs (snd (user g)) ! k))\<rparr>))"
proof -
  have body: "Retry3_body (count_calls f) i nw L g =
      (if transient (snd (snd (snd (snd (fst (count_calls f i nw (user g)))))))
       then Inr (True, fst (fst (count_calls f i nw (user g))),
                 (fst L, snd (fst (count_calls f i nw (user g)))),
                 g\<lparr>user := snd (count_calls f i nw (user g))\<rparr>)
       else Inr (False, fst (fst (count_calls f i nw (user g))),
                 (Some (snd (fst (count_calls f i nw (user g)))), snd (fst (count_calls f i nw (user g)))),
                 g\<lparr>user := snd (count_calls f i nw (user g))\<rparr>))"
    for i nw L and g :: "(nat \<times> 's) world"
    by (cases L) (auto simp: transient_def split: prod.splits)
  have "\<exists>L'. Backoff_from Background (Values xs) (Retry3_body (count_calls f)) 0 (None, va, vb, vc, None) g =
            Some (Inr (L', g\<lparr>slept := slept g @ map (\<lambda>r. fst (fst r))
                                 (take k (calls_of f xs (snd (user g)))),
                            user := (fst (user g) + Suc k, snd (calls_of f xs (snd (user g)) ! k))\<rparr>))
        \<and> (case fst L' of Some r \<Rightarrow> r | None \<Rightarrow> snd L') = snd (fst (calls_of f xs (snd (user g)) ! k))"
    by (rule counted_driver_loop [where fresh = "\<lambda>L. fst L = None" and go = "\<lambda>L v. (fst L, v)"
          and stop = "\<lambda>v. (Some v, v)" and err = "\<lambda>v. snd (snd (snd v))"
          and fin = "\<lambda>L. case fst L of Some r \<Rightarrow> r | None \<Rightarrow> snd L"])
       (simp_all add: body assms)
  then show ?thesis
    by (auto simp: Retry3_def Backoff_from_0 Retry3_end_def split: prod.splits option.splits)
qed

lemma override_in_ends:
  assumes "override_in err cs i" and "i < length cs"
  shows "\<forall>j<i. goes_on_by err (cs ! j)" and "\<not> goes_on_by err (cs ! i)"
proof -
  from assms(1) have neg: "fst (fst (cs ! i)) < 0" and all: "list_all (goes_on_by err) (take i cs)"
    by (simp_all add: override_in_def split: if_splits)
  from all assms(2) show "\<forall>j<i. goes_on_by err (cs ! j)"
    by (auto simp: list_all_length)
  from neg show "\<not> goes_on_by err (cs ! i)"
    by (simp add: goes_on_by_def)
qed

lemma goes_on_as_goes_on_by: "goes_on r = goes_on_by snd r"
  by (simp add: goes_on_def goes_on_by_def error_of_def handle_of_def)

text \<open>
  C3. When the operation leaves a negative duration behind the pointer in iteration \<open>i\<close>
  (the iterations before it having gone on), each of \<open>Retry0\<close>, \<open>Retry1\<close>, \<open>Retry2\<close> and
  \<open>Retry3\<close> returns what that invocation returned, values and error; the operation has
  been invoked \<open>i + 1\<close> times, and the completed waits are the \<open>i\<close> that follow the
  iterations before \<open>i\<close>: none follows iteration \<open>i\<close>.
\<close>

theorem Retry_sentinel_override_ends_loop:
  fixes g :: "(nat \<times> 's) world"
  assumes "i \<le> length xs"
    and "override_in (\<lambda>e. e) (calls_of fa xs (snd (user g))) i"
    and "override_in snd (calls_of fb xs (snd (user g))) i"
    and "override_in (\<lambda>v. snd (snd v)) (calls_of fc xs (snd (user g))) i"
    and "override_in (\<lambda>v. snd (snd (snd v))) (calls_of fd xs (snd (user g))) i"
  shows "Retry0 Background (Values xs) (count_calls fa) g =
           Some (Inr (snd (fst (calls_of fa xs (snd (user g)) ! i)),
                      g\<lparr>slept := slept g @ map (\<lambda>r. fst (fst r)) (take i (calls_of fa xs (snd (user g)))),
                        user := (fst (user g) + Suc i, snd (calls_of fa xs (snd (user g)) ! i))\<rparr>))
       \<and> length (take i (calls_of fa xs (snd (user g)))) = i
       \<and> Retry1 Background (Values xs) (count_calls fb) ta g =
           Some (Inr (snd (fst (calls_of fb xs (snd (user g)) ! i)),
                      g\<lparr>slept := slept g @ map (\<lambda>r. fst (fst r)) (take i (calls_of fb xs (snd (user g)))),
                        user := (fst (user g) + Suc i, snd (calls_of fb xs (snd (user g)) ! i))\<rparr>))
       \<and> length (take i (calls_of fb xs (snd (user g)))) = i
       \<and> Retry2 Background (Values xs) (count_calls fc) ua ub g =
           Some (Inr (snd (fst (calls_of fc xs (snd (user g)) ! i)),
                      g\<lparr>slept := slept g @ map (\<lambda>r. fst (fst r)) (take i (calls_of fc xs (snd (user g)))),
                        user := (fst (user g) + Suc i, snd (calls_of fc xs (snd (user g)) ! i))\<rparr>))
       \<and> length (take i (calls_of fc xs (snd (user g)))) = i
       \<and> Retry3 Background (Values xs) (count_calls fd) va vb vc g =
           Some (Inr (snd (fst (calls_of fd xs (snd (user g)) ! i)),
                      g\<lparr>slept := slept g @ map (\<lambda>r. fst (fst r)) (take i (calls_of fd xs (snd (user g)))),
                        user := (fst (user g) + Suc i, snd (calls_of fd xs (snd (user g)) ! i))\<rparr>))
       \<and> length (take i (calls_of fd xs (snd (user g)))) = i"
proof -
  have len: "length (calls_of f xs s) = Suc (length xs)"
    for f :: "int \<Rightarrow> duration \<Rightarrow> 's \<Rightarrow> 'r \<times> 's" and s
    by (simp add: calls_of_def length_attempts)
  have i: "i < Suc (length xs)" using assms(1) by simp
  have a: "Retry0 Background (Values xs) (count_calls fa) g =
           Some (Inr (snd (fst (calls_of fa xs (snd (user g)) ! i)),
                      g\<lparr>slept := slept g @ map (\<lambda>r. fst (fst r)) (take i (calls_of fa xs (snd (user g)))),
                        user := (fst (user g) + Suc i, snd (calls_of fa xs (snd (user g)) ! i))\<rparr>))"
    using override_in_ends [OF assms(2)] i
    by (intro Retry0_ends_at assms(1)) (simp_all add: len)
  have b: "Retry1 Background (Values xs) (count_calls fb) ta g =
           Some (Inr (snd (fst (calls_of fb xs (snd (user g)) ! i)),
                      g\<lparr>slept := slept g @ map (\<lambda>r. fst (fst r)) (take i (calls_of fb xs (snd (user g)))),
                        user := (fst (user g) + Suc i, snd (calls_of fb xs (snd (user g)) ! i))\<rparr>))"
  proof -
    have before: "\<forall>j<i. goes_on (calls_of fb xs (snd (user g)) ! j)"
      and last: "\<not> goes_on (calls_of fb xs (snd (user g)) ! i)"
      using override_in_ends [OF assms(3)] i by (simp_all add: len goes_on_as_goes_on_by)
    have h: "handle_of = (\<lambda>r :: ('x, 'y) outcome1. fst (fst r))"
      by (rule ext) (simp add: handle_of_def)
    show ?thesis
      using Retry1_ends_at [OF assms(1) before last, of ta]
      by (simp add: h value_of_def error_of_def state_of_def)
  qed
  have c: "Retry2 Background (Values xs) (count_calls fc) ua ub g =
           Some (Inr (snd (fst (calls_of fc xs (snd (user g)) ! i)),
                      g\<lparr>slept := slept g @ map (\<lambda>r. fst (fst r)) (take i (calls_of fc xs (snd (user g)))),
                        user := (fst (user g) + Suc i, snd (calls_of fc xs (snd (user g)) ! i))\<rparr>))"
    using override_in_ends [OF assms(4)] i
    by (intro Retry2_ends_at assms(1)) (simp_all add: len)
  have d: "Retry3 Background (Values xs) (count_calls fd) va vb vc g =
           Some (Inr (snd (fst (calls_of fd xs (snd (user g)) ! i)),
                      g\<lparr>slept := slept g @ map (\<lambda>r. fst (fst r)) (take i (calls_of fd xs (snd (user g)))),
                        user := (fst (user g) + Suc i, snd (calls_of fd xs (snd (user g)) ! i))\<rparr>))"
    using override_in_ends [OF assms(5)] i
    by (intro Retry3_ends_at assms(1)) (simp_all add: len)
  from a b c d assms(1) show ?thesis by (simp add: len)
qed

theorem Retry_sentinel_override_ends_loop_witness:
  "(3::nat) \<le> length example_pauses
   \<and> override_in (\<lambda>e. e) (calls_of ExampleRetry0_sentinel_next_wait_op example_pauses ()) 3
   \<and> override_in snd (calls_of sentinel_next_wait_op example_pauses ()) 3
   \<and> override_in (\<lambda>v. snd (snd v)) (calls_of sentinel_next_wait_op2 example_pauses ()) 3
   \<and> override_in (\<lambda>v. snd (snd (snd v))) (calls_of sentinel_next_wait_op3 example_pauses ()) 3
   \<and> Retry0 Background (Values example_pauses) (count_calls ExampleRetry0_sentinel_next_wait_op)
         (world0 (\<lambda>k. 0) (0, ())) =
       Some (Inr (Some (ErrorString ''some other error''),
                  (world0 (\<lambda>k. 0) (0, ()))\<lparr>slept := [1000000, 1100000, 1210000], user := (4, ())\<rparr>))
   \<and> Retry1 Background (Values example_pauses) (count_calls sentinel_next_wait_op) 0
         (world0 (\<lambda>k. 0) (0, ())) =
       Some (Inr ((3, Some (ErrorString ''some other error'')),
                  (world0 (\<lambda>k. 0) (0, ()))\<lparr>slept := [1000000, 1100000, 1210000], user := (4, ())\<rparr>))
   \<and> Retry2 Background (Values example_pauses) (count_calls sentinel_next_wait_op2) 0 False
         (world0 (\<lambda>k. 0) (0, ())) =
       Some (Inr ((3, True, Some (ErrorString ''some other error'')),
                  (world0 (\<lambda>k. 0) (0, ()))\<lparr>slept := [1000000, 1100000, 1210000], user := (4, ())\<rparr>))
   \<and> Retry3 Background (Values example_pauses) (count_calls sentinel_next_wait_op3) 0 False 0
         (world0 (\<lambda>k. 0) (0, ())) =
       Some (Inr ((3, True, 1331000, Some (ErrorString ''some other error'')),
                  (world0 (\<lambda>k. 0) (0, ()))\<lparr>slept := [1000000, 1100000, 1210000], user := (4, ())\<rparr>))"
proof -
  let ?g = "world0 (\<lambda>k. 0) (0 :: nat, ())"
  have u: "snd (user ?g) = ()" by simp
  have ca: "calls_of ExampleRetry0_sentinel_next_wait_op example_pauses () =
      [((1000000, Some (ErrorString ''spurious error'')), ()),
       ((1100000, Some (ErrorString ''spurious error'')), ()),
       ((1210000, Some (ErrorString ''spurious error'')), ()),
       ((- 1, Some (ErrorString ''some other error'')), ()),
       ((1464100, Some (ErrorString ''spurious error'')), ()),
       ((- 1, Some (ErrorString ''spurious error'')), ())]"
    by (simp add: calls_of_def example_pauses_def ExampleRetry0_sentinel_next_wait_op_def
        SentinelDuration_def)
  have cb: "calls_of sentinel_next_wait_op example_pauses () =
      [((1000000, 0, Some (ErrorString ''spurious error'')), ()),
       ((1100000, 1, Some (ErrorString ''spurious error'')), ()),
       ((1210000, 2, Some (ErrorString ''spurious error'')), ()),
       ((- 1, 3, Some (ErrorString ''some other error'')), ()),
       ((1464100, 4, Some (ErrorString ''spurious error'')), ()),
       ((- 1, 5, Some (ErrorString ''spurious error'')), ())]"
    by (simp add: calls_of_def example_pauses_def sentinel_next_wait_op_def SentinelDuration_def)
  have cc: "calls_of sentinel_next_wait_op2 example_pauses () =
      [((1000000, 0, False, Some (ErrorString ''spurious error'')), ()),
       ((1100000, 1, False, Some (ErrorString ''spurious error'')), ()),
       ((1210000, 2, False, Some (ErrorString ''spurious error'')), ()),
       ((- 1, 3, True, Some (ErrorString ''some other error'')), ()),
       ((1464100, 4, False, Some (ErrorString ''spurious error'')), ()),
       ((- 1, 5, False, Some (ErrorString ''spurious error'')), ())]"
    by (simp add: calls_of_def example_pauses_def sentinel_next_wait_op2_def SentinelDuration_def)
  have cd: "calls_of sentinel_next_wait_op3 example_pauses () =
      [((1000000, 0, False, 1000000, Some (ErrorString ''spurious error'')), ()),
       ((1100000, 1, False, 1100000, Some (ErrorString ''spurious error'')), ()),
       ((1210000, 2, False, 1210000, Some (ErrorString ''spurious error'')), ()),
       ((- 1, 3, True, 1331000, Some (ErrorString ''some other error'')), ()),
       ((1464100, 4, False, 1464100, Some (ErrorString ''spurious error'')), ()),
       ((- 1, 5, False, - 1, Some (ErrorString ''spurious error'')), ())]"
    by (simp add: calls_of_def example_pauses_def sentinel_next_wait_op3_def SentinelDuration_def)
  have h: "(3::nat) \<le> length example_pauses" by (simp add: example_pauses_def)
  have ha: "override_in (\<lambda>e. e) (calls_of ExampleRetry0_sentinel_next_wait_op example_pauses (snd (user ?g))) 3"
    unfolding u ca by (simp add: override_in_def goes_on_by_def transient_def)
  have hb: "override_in snd (calls_of sentinel_next_wait_op example_pauses (snd (user ?g))) 3"
    unfolding u cb by (simp add: override_in_def goes_on_by_def transient_def)
  have hc: "override_in (\<lambda>v. snd (snd v)) (calls_of sentinel_next_wait_op2 example_pauses (snd (user ?g))) 3"
    unfolding u cc by (simp add: override_in_def goes_on_by_def transient_def)
  have hd: "override_in (\<lambda>v. snd (snd (snd v))) (calls_of sentinel_next_wait_op3 example_pauses (snd (user ?g))) 3"
    unfolding u cd by (simp add: override_in_def goes_on_by_def transient_def)
  show ?thesis
    using h ha hb hc hd Retry_sentinel_override_ends_loop [OF h ha hb hc hd, of 0 0 False 0 False 0]
    unfolding u ca cb cc cd
    by (simp add: world0_def)
qed

end
